theory Spec2Isabelle
  imports Main "HOL-Library.Char_ord" "HOL-Library.List_Lexorder" "HOL-Library.AList"
begin

section \<open>Errors\<close>

text \<open>
  Every error value the pipeline builds with \<open>fmt.Errorf\<close> or receives from the
  operating system, one constructor per message. A Go \<open>error\<close> result is an
  \<open>error option\<close>, \<open>None\<close> being \<open>nil\<close>.
\<close>

datatype error =
    ErrMkdirAll
  | ErrWriteFile
  | ErrNoConnection
  | ErrConnWrite
  | ErrRateLimited
  | ErrMaxReconnects
  | ErrDial
  | ErrConnect
  | ErrReconnectionFailed error
  | ErrWriteAfterReconnect error
  | ErrContextCancelled
  | ErrBuildRequest
  | ErrCreateRequest
  | ErrHTTPRequest
  | ErrReadBody
  | ErrAuth401
  | ErrForbidden403
  | ErrRateLimit429
  | ErrServer int
  | ErrStatus int
  | ErrParseJSON
  | ErrGraphQL string
  | ErrAllRetriesFailed int "error option"

section \<open>The environment\<close>

text \<open>
  Everything the program cannot decide by itself is an input of the model. An \<open>env\<close>
  scripts the outside world: the \<open>k\<close>-th poll of the cancellation context, the
  \<open>k\<close>-th HTTP round trip (which sees the marker sent), the \<open>k\<close>-th write on the
  syslog connection, the \<open>k\<close>-th dial, the \<open>k\<close>-th reading of the clock by the syslog
  writer, the \<open>k\<close>-th attempt to store the marker file, the \<open>k\<close>-th timestamp put into
  a syslog line and the answer of \<open>os.Hostname\<close>. A \<open>world\<close> counts how many of each
  have happened and records what left the program: the lines delivered to the collector,
  the contents successfully written to the marker file and the pages obtained from the
  API.
\<close>

datatype fs_result = MkdirAllFails | WriteFileFails | WriteFileOk

type_synonym fieldsMap = "(string \<times> string) list"

record account =
  ID :: string
  ErrorString :: string
  Records :: "fieldsMap list"

record EventsFeedResponse =
  Marker :: "string option"
  FetchedCount :: int
  Accounts :: "account list"
  Errors :: "string list"

record EventsPage =
  Events :: "fieldsMap list"
  NewMarker :: string
  HasMore :: bool

text \<open>
  What one HTTP round trip gives back: \<open>json.Marshal\<close> of the request fails,
  \<open>http.NewRequest\<close> fails, \<open>client.Do\<close> fails, reading the body fails, or a
  status code arrives with a body; the body is given by what \<open>json.Unmarshal\<close> makes
  of it (\<open>None\<close> when it does not parse).
\<close>

datatype http_outcome =
    MarshalFails
  | NewRequestFails
  | DoFails
  | ReadAllFails
  | Response int "EventsFeedResponse option"

record env =
  ctx_done :: "nat \<Rightarrow> bool"
  http_resp :: "nat \<Rightarrow> string \<Rightarrow> http_outcome"
  write_ok :: "nat \<Rightarrow> bool"
  dial_ok :: "nat \<Rightarrow> bool"
  clock :: "nat \<Rightarrow> int"
  fs_res :: "nat \<Rightarrow> fs_result"
  stamp :: "nat \<Rightarrow> string"
  os_hostname :: "string option"

record world =
  ctx_polls :: nat
  fetch_calls :: nat
  http_calls :: nat
  net_writes :: nat
  net_closes :: nat
  net_dials :: nat
  clock_reads :: nat
  fs_calls :: nat
  stamps :: nat
  sent :: "string list"
  written :: "string list"
  pages :: "EventsPage list"

text \<open>
  \<open>'a result\<close> is how a Go function ends: it panics or it returns a value.
\<close>

datatype 'a result = Panicked | Returned 'a

section \<open>Marker store (internal/marker/marker.go)\<close>

text \<open>
  \<open>Manager\<close> keeps the cursor in memory; the file path and the logger play no part in
  the control flow. A successful \<open>os.WriteFile\<close> appends the stored content to
  \<open>written\<close>, so the last element of \<open>written\<close> is what the marker file holds after
  the last successful write.
\<close>

record Manager =
  marker :: string

definition Save :: "Manager \<Rightarrow> env \<Rightarrow> string \<Rightarrow> world \<Rightarrow> error option \<times> Manager \<times> world" where
  "Save m e mk w =
     (if mk = [] then (None, m, w)
      else let w1 = w\<lparr>fs_calls := Suc (fs_calls w)\<rparr>
           in case fs_res e (fs_calls w) of
                MkdirAllFails \<Rightarrow> (Some ErrMkdirAll, m, w1)
              | WriteFileFails \<Rightarrow> (Some ErrWriteFile, m, w1)
              | WriteFileOk \<Rightarrow> (None, m\<lparr>marker := mk\<rparr>, w1\<lparr>written := written w1 @ [mk]\<rparr>))"

definition Get :: "Manager \<Rightarrow> string" where
  "Get m = marker m"

definition Update :: "Manager \<Rightarrow> env \<Rightarrow> string \<Rightarrow> world \<Rightarrow> error option \<times> Manager \<times> world" where
  "Update m e mk w =
     (if mk = [] \<or> mk = marker m then (None, m, w) else Save m e mk w)"

section \<open>Remote fetcher (internal/api)\<close>

primrec extractAccounts :: "account list \<Rightarrow> fieldsMap list" where
  "extractAccounts [] = []"
| "extractAccounts (a # rest) =
     (if ErrorString a \<noteq> [] then extractAccounts rest
      else Records a @ extractAccounts rest)"

definition extractEvents :: "EventsFeedResponse \<Rightarrow> fieldsMap list" where
  "extractEvents response = extractAccounts (Accounts response)"

definition handleHTTPError :: "int \<Rightarrow> error" where
  "handleHTTPError statusCode =
     (if statusCode = 401 then ErrAuth401
      else if statusCode = 403 then ErrForbidden403
      else if statusCode = 429 then ErrRateLimit429
      else if statusCode \<in> {500, 502, 503, 504} then ErrServer statusCode
      else ErrStatus statusCode)"

definition FetchEventsPage :: "http_outcome \<Rightarrow> error + EventsPage" where
  "FetchEventsPage out =
     (case out of
        MarshalFails \<Rightarrow> Inl ErrBuildRequest
      | NewRequestFails \<Rightarrow> Inl ErrCreateRequest
      | DoFails \<Rightarrow> Inl ErrHTTPRequest
      | ReadAllFails \<Rightarrow> Inl ErrReadBody
      | Response status body \<Rightarrow>
          if status \<noteq> 200 then Inl (handleHTTPError status)
          else (case body of
                  None \<Rightarrow> Inl ErrParseJSON
                | Some response \<Rightarrow>
                    (case Errors response of
                       msg # _ \<Rightarrow> Inl (ErrGraphQL msg)
                     | [] \<Rightarrow>
                         let events = extractEvents response
                         in (case Marker response of
                               Some mk \<Rightarrow>
                                 Inr \<lparr>Events = events, NewMarker = mk,
                                      HasMore = (length events > 0 \<and> mk \<noteq> [])\<rparr>
                             | None \<Rightarrow>
                                 Inr \<lparr>Events = events, NewMarker = [],
                                      HasMore = False\<rparr>))))"

text \<open>
  \<open>FetchWithRetry\<close> (retry.go). The loop variable \<open>attempt\<close> and \<open>lastErr\<close> are the
  arguments of \<open>retryLoop\<close>; the sleep between attempts has no effect on the result.
  Every round trip is counted in \<open>http_calls\<close>, every page obtained is appended to
  \<open>pages\<close>, and every call of \<open>FetchWithRetry\<close> is counted in \<open>fetch_calls\<close>.
\<close>

function retryLoop :: "env \<Rightarrow> string \<Rightarrow> int \<Rightarrow> int \<Rightarrow> error option \<Rightarrow> world
    \<Rightarrow> (error + EventsPage) \<times> world" where
  "retryLoop e mk maxAttempts attempt lastErr w =
     (if attempt < maxAttempts then
        (let w1 = w\<lparr>http_calls := Suc (http_calls w)\<rparr>
         in case FetchEventsPage (http_resp e (http_calls w) mk) of
              Inr page \<Rightarrow> (Inr page, w1\<lparr>pages := pages w1 @ [page]\<rparr>)
            | Inl err \<Rightarrow> retryLoop e mk maxAttempts (attempt + 1) (Some err) w1)
      else (Inl (ErrAllRetriesFailed maxAttempts lastErr), w))"
  by pat_completeness auto
termination
  by (relation "measure (\<lambda>(e, mk, maxAttempts, attempt, lastErr, w). nat (maxAttempts - attempt))")
     auto

definition FetchWithRetry :: "env \<Rightarrow> string \<Rightarrow> int \<Rightarrow> world \<Rightarrow> (error + EventsPage) \<times> world" where
  "FetchWithRetry e mk maxAttempts w =
     retryLoop e mk maxAttempts 0 None (w\<lparr>fetch_calls := Suc (fetch_calls w)\<rparr>)"

section \<open>Event formatter (package cef)\<close>

record Formatter =
  vendor :: string
  product :: string
  version :: string
  fieldMappings :: fieldsMap
  orderedFields :: "string list"

text \<open>\<open>strings.ReplaceAll\<close> for a pattern of one byte.\<close>

definition ReplaceAll :: "string \<Rightarrow> char \<Rightarrow> string \<Rightarrow> string" where
  "ReplaceAll s old new = concat (map (\<lambda>c. if c = old then new else [c]) s)"

definition backslash :: char where
  "backslash = CHR 0x5C"

definition sanitizeValue :: "string \<Rightarrow> string" where
  "sanitizeValue v0 =
     (let v1 = ReplaceAll v0 backslash [backslash, backslash];
          v2 = ReplaceAll v1 (CHR ''='') [backslash, CHR ''=''];
          v3 = ReplaceAll v2 (CHR ''|'') [backslash, CHR ''|''];
          v4 = ReplaceAll v3 (CHR 0x0A) [backslash, CHR ''n''];
          v5 = ReplaceAll v4 (CHR 0x0D) [backslash, CHR ''r'']
      in v5)"

definition isMappedField :: "string \<Rightarrow> fieldsMap \<Rightarrow> bool" where
  "isMappedField fieldName mappings = (map_of mappings fieldName \<noteq> None)"

definition severityMap :: "(string \<times> int) list" where
  "severityMap =
     [(''Threat'', 10), (''Malware'', 10), (''Attack'', 9), (''Intrusion'', 9),
      (''Security'', 8), (''Policy Violation'', 7), (''Warning'', 6), (''Alert'', 6),
      (''Connectivity'', 5), (''Network'', 4), (''Traffic'', 3), (''Info'', 2),
      (''Debug'', 1)]"

definition mapEventTypeToSeverity :: "string \<Rightarrow> int" where
  "mapEventTypeToSeverity eventType =
     (case map_of severityMap eventType of Some severity \<Rightarrow> severity | None \<Rightarrow> 5)"

definition getMapValue :: "fieldsMap \<Rightarrow> string \<Rightarrow> string \<Rightarrow> string" where
  "getMapValue m key defaultVal =
     (case map_of m key of
        Some val \<Rightarrow> if val \<noteq> [] then val else defaultVal
      | None \<Rightarrow> defaultVal)"

text \<open>The verb \<open>%d\<close> of \<open>fmt.Sprintf\<close>.\<close>

fun decimal :: "nat \<Rightarrow> string" where
  "decimal n =
     (if n < 10 then [char_of (48 + n)]
      else decimal (n div 10) @ [char_of (48 + n mod 10)])"

definition Sprintd :: "int \<Rightarrow> string" where
  "Sprintd i = (if i < 0 then CHR ''-'' # decimal (nat (- i)) else decimal (nat i))"

fun Join :: "string list \<Rightarrow> string \<Rightarrow> string" where
  "Join [] sep = []"
| "Join [x] sep = x"
| "Join (x # y # rest) sep = x @ sep @ Join (y # rest) sep"

text \<open>
  The three loops of \<open>Format\<close> that write the \<open>extensions\<close> map and read it back.
  The map under construction is an association list kept free of duplicate keys by
  \<open>AList.update\<close>; the loops visit \<open>fieldMappings\<close> and \<open>fieldsMap\<close> in the order
  of their lists.
\<close>

definition applyMappings :: "fieldsMap \<Rightarrow> fieldsMap \<Rightarrow> fieldsMap \<Rightarrow> fieldsMap" where
  "applyMappings mappings fm extensions =
     fold (\<lambda>(sourceKey, targetKey) ext.
             case map_of fm sourceKey of
               Some v \<Rightarrow> if v \<noteq> [] then AList.update targetKey (sanitizeValue v) ext else ext
             | None \<Rightarrow> ext)
          mappings extensions"

definition addUnmapped :: "fieldsMap \<Rightarrow> fieldsMap \<Rightarrow> fieldsMap \<Rightarrow> fieldsMap" where
  "addUnmapped mappings fm extensions =
     fold (\<lambda>(k, v) ext.
             if \<not> isMappedField k mappings \<and> v \<noteq> []
             then AList.update k (sanitizeValue v) ext else ext)
          fm extensions"

definition takeOrdered :: "string list \<Rightarrow> string list \<times> fieldsMap \<Rightarrow> string list \<times> fieldsMap" where
  "takeOrdered ordered start =
     fold (\<lambda>field (parts, ext).
             case map_of ext field of
               Some v \<Rightarrow> (parts @ [field @ ''='' @ v], AList.delete field ext)
             | None \<Rightarrow> (parts, ext))
          ordered start"

definition Format :: "Formatter \<Rightarrow> fieldsMap \<Rightarrow> string" where
  "Format f fm =
     (let signature = getMapValue fm ''event_type'' ''Unknown'';
          name = signature @ '' - '' @ getMapValue fm ''event_sub_type'' ''Unknown'';
          severity = mapEventTypeToSeverity signature;
          header = ''CEF:0|'' @ vendor f @ ''|'' @ product f @ ''|'' @ version f @ ''|''
                     @ signature @ ''|'' @ name @ ''|'' @ Sprintd severity @ ''|'';
          extensions = addUnmapped (fieldMappings f) fm
                         (applyMappings (fieldMappings f) fm []);
          (parts, rest) = takeOrdered (orderedFields f) ([], extensions);
          remaining = sort (map fst rest);
          parts' = parts @ map (\<lambda>field. field @ ''='' @
                                  (case map_of rest field of Some v \<Rightarrow> v | None \<Rightarrow> []))
                               remaining
      in header @ Join parts' '' '')"

section \<open>Delivery channel (package syslog)\<close>

text \<open>
  A \<open>time.Time\<close> is the number of nanoseconds since the zero time, so the zero value
  \<open>time.Time{}\<close> is \<open>0\<close>; a \<open>time.Duration\<close> is a signed 64-bit count of
  nanoseconds. \<open>Time.Sub\<close> saturates at the ends of that range.
\<close>

definition Second :: int where
  "Second = 1000000000"

definition maxDuration :: int where
  "maxDuration = 2 ^ 63 - 1"

definition minDuration :: int where
  "minDuration = - (2 ^ 63)"

definition Sub :: "int \<Rightarrow> int \<Rightarrow> int" where
  "Sub t u =
     (let d = t - u
      in if d > maxDuration then maxDuration
         else if d < minDuration then minDuration
         else d)"

definition Since :: "int \<Rightarrow> int \<Rightarrow> int" where
  "Since now t = Sub now t"

text \<open>
  \<open>conn\<close> is \<open>None\<close> for a nil connection and \<open>Some k\<close> for the connection that the
  \<open>k\<close>-th dial returned.
\<close>

record Writer =
  conn :: "nat option"
  reconnectCount :: int
  lastReconnect :: int
  maxReconnects :: int
  reconnectDelay :: int

definition NewWriter :: "env \<Rightarrow> world \<Rightarrow> (error + Writer) \<times> world" where
  "NewWriter e w =
     (let w1 = w\<lparr>net_dials := Suc (net_dials w)\<rparr>
      in if dial_ok e (net_dials w)
         then (Inr \<lparr>conn = Some (net_dials w), reconnectCount = 0, lastReconnect = 0,
                    maxReconnects = 10, reconnectDelay = 5 * Second\<rparr>, w1)
         else (Inl ErrConnect, w1))"

definition Write :: "Writer \<Rightarrow> env \<Rightarrow> string \<Rightarrow> world \<Rightarrow> error option \<times> world" where
  "Write wr e message w =
     (case conn wr of
        None \<Rightarrow> (Some ErrNoConnection, w)
      | Some c \<Rightarrow>
          let w1 = w\<lparr>net_writes := Suc (net_writes w)\<rparr>
          in if write_ok e (net_writes w)
             then (None, w1\<lparr>sent := sent w1 @ [message]\<rparr>)
             else (Some ErrConnWrite, w1))"

definition Reconnect :: "Writer \<Rightarrow> env \<Rightarrow> world \<Rightarrow> error option \<times> Writer \<times> world" where
  "Reconnect wr e w =
     (let now = clock e (clock_reads w);
          w1 = w\<lparr>clock_reads := Suc (clock_reads w)\<rparr>
      in if Since now (lastReconnect wr) < reconnectDelay wr
         then (Some ErrRateLimited, wr, w1)
         else if reconnectCount wr \<ge> maxReconnects wr
         then (Some ErrMaxReconnects, wr, w1)
         else
           let w2 = (if conn wr \<noteq> None then w1\<lparr>net_closes := Suc (net_closes w1)\<rparr> else w1);
               w3 = w2\<lparr>net_dials := Suc (net_dials w2)\<rparr>
           in if dial_ok e (net_dials w2)
              then (None,
                    wr\<lparr>conn := Some (net_dials w2), reconnectCount := 0,
                       lastReconnect := clock e (clock_reads w3)\<rparr>,
                    w3\<lparr>clock_reads := Suc (clock_reads w3)\<rparr>)
              else (Some ErrDial,
                    wr\<lparr>reconnectCount := reconnectCount wr + 1, lastReconnect := 0\<rparr>,
                    w3))"

text \<open>\<open>reconnectMany k\<close>: \<open>k\<close> calls of \<open>Reconnect\<close> one after the other, with their results.\<close>

primrec reconnectMany :: "nat \<Rightarrow> Writer \<Rightarrow> env \<Rightarrow> world \<Rightarrow> error option list \<times> Writer \<times> world" where
  "reconnectMany 0 wr e w = ([], wr, w)"
| "reconnectMany (Suc k) wr e w =
     (case Reconnect wr e w of
        (r, wr1, w1) \<Rightarrow>
          (case reconnectMany k wr1 e w1 of (rs, wr2, w2) \<Rightarrow> (r # rs, wr2, w2)))"

definition ReconnectCount :: "Writer \<Rightarrow> int" where
  "ReconnectCount wr = reconnectCount wr"

definition FormatMessage :: "string \<Rightarrow> string \<Rightarrow> string \<Rightarrow> string" where
  "FormatMessage hostname message timestamp =
     ''<'' @ ''134'' @ ''>'' @ timestamp @ '' '' @ hostname @ '' '' @ message"

fun firstNonEmpty :: "string list \<Rightarrow> fieldsMap \<Rightarrow> string" where
  "firstNonEmpty [] fm = []"
| "firstNonEmpty (field # rest) fm =
     (case map_of fm field of
        Some ip \<Rightarrow> if ip \<noteq> [] then ip else firstNonEmpty rest fm
      | None \<Rightarrow> firstNonEmpty rest fm)"

definition ExtractSourceIP :: "fieldsMap \<Rightarrow> string" where
  "ExtractSourceIP fm =
     firstNonEmpty [''client_ip'', ''src_ip'', ''source_ip'', ''host_ip'', ''user_ip''] fm"

definition DetermineHostname :: "bool \<Rightarrow> string \<Rightarrow> fieldsMap \<Rightarrow> string option \<Rightarrow> string" where
  "DetermineHostname useEventIP customSourceIP fm host =
     (if useEventIP then
        (let sourceIP = ExtractSourceIP fm
         in if sourceIP \<noteq> [] then sourceIP else ''unknown-host'')
      else if customSourceIP \<noteq> [] then customSourceIP
      else (case host of Some hostname \<Rightarrow> hostname | None \<Rightarrow> ''cato-forwarder''))"

section \<open>Configuration (internal/config)\<close>

text \<open>The fields of \<open>Config\<close> that the pipeline reads. A Go \<open>int\<close> is 64 bits wide.\<close>

record Config =
  MaxMsgSize :: int
  UseEventIP :: bool
  CustomSourceIP :: string
  FetchInterval :: int
  MaxPagination :: int
  RetryAttempts :: int
  RetryDelay :: int
  MaxBackoffDelay :: int

section \<open>Cycle orchestrator (internal/processor)\<close>

record Stats =
  TotalEventsForwarded :: int
  TotalAPIRequests :: int
  FailedAPIRequests :: int

definition NewStats :: Stats where
  "NewStats = \<lparr>TotalEventsForwarded = 0, TotalAPIRequests = 0, FailedAPIRequests = 0\<rparr>"

definition IncrementEventsForwarded :: "Stats \<Rightarrow> int \<Rightarrow> Stats" where
  "IncrementEventsForwarded s n = s\<lparr>TotalEventsForwarded := TotalEventsForwarded s + n\<rparr>"

definition IncrementAPIRequests :: "Stats \<Rightarrow> Stats" where
  "IncrementAPIRequests s = s\<lparr>TotalAPIRequests := TotalAPIRequests s + 1\<rparr>"

definition IncrementFailedAPIRequests :: "Stats \<Rightarrow> Stats" where
  "IncrementFailedAPIRequests s = s\<lparr>FailedAPIRequests := FailedAPIRequests s + 1\<rparr>"

definition GetTotalEvents :: "Stats \<Rightarrow> int" where
  "GetTotalEvents s = TotalEventsForwarded s"

record Processor =
  cfg :: Config
  syslogWriter :: Writer
  cefFormatter :: Formatter
  markerManager :: Manager
  stats :: Stats

text \<open>
  \<open>forwardEvents\<close>, in three parts. \<open>syslogLine\<close> is the head of the loop body: it
  builds the syslog line of one event and truncates it; slicing
  \<open>syslogMessage[:MaxMsgSize]\<close> panics when \<open>MaxMsgSize\<close> is negative.
  \<open>sendWithRetry\<close> is the rest of the body: the write, and after a failed write one
  \<open>Reconnect\<close> and one more write. \<open>forwardLoop\<close> is the loop over the events of one
  page, with \<open>forwardedCount\<close> as the argument \<open>n\<close>; it returns the count together
  with the error, as the source does on both of its error exits.
\<close>

definition syslogLine :: "Config \<Rightarrow> Formatter \<Rightarrow> env \<Rightarrow> fieldsMap \<Rightarrow> nat \<Rightarrow> string result" where
  "syslogLine c f e fm k =
     (let hostname = DetermineHostname (UseEventIP c) (CustomSourceIP c) fm (os_hostname e);
          cefMessage = Format f fm;
          syslogMessage = FormatMessage hostname cefMessage (stamp e k)
      in if int (length syslogMessage) > MaxMsgSize c
         then (if MaxMsgSize c < 0 then Panicked
               else Returned (take (nat (MaxMsgSize c)) syslogMessage))
         else Returned syslogMessage)"

definition sendWithRetry :: "Writer \<Rightarrow> env \<Rightarrow> string \<Rightarrow> world
    \<Rightarrow> error option \<times> Writer \<times> world" where
  "sendWithRetry wr e syslogMessage w =
     (case Write wr e syslogMessage w of
        (None, w1) \<Rightarrow> (None, wr, w1)
      | (Some err, w1) \<Rightarrow>
          (case Reconnect wr e w1 of
             (Some reconnectErr, wr2, w2) \<Rightarrow>
               (Some (ErrReconnectionFailed reconnectErr), wr2, w2)
           | (None, wr2, w2) \<Rightarrow>
               (case Write wr2 e syslogMessage w2 of
                  (Some err2, w3) \<Rightarrow> (Some (ErrWriteAfterReconnect err2), wr2, w3)
                | (None, w3) \<Rightarrow> (None, wr2, w3))))"

fun forwardLoop :: "Config \<Rightarrow> Formatter \<Rightarrow> env \<Rightarrow> fieldsMap list \<Rightarrow> int \<Rightarrow> Writer \<Rightarrow> world
    \<Rightarrow> (int \<times> error option) result \<times> Writer \<times> world" where
  "forwardLoop c f e [] n wr w = (Returned (n, None), wr, w)"
| "forwardLoop c f e (fm # rest) n wr w =
     (case syslogLine c f e fm (stamps w) of
        Panicked \<Rightarrow> (Panicked, wr, w\<lparr>stamps := Suc (stamps w)\<rparr>)
      | Returned syslogMessage \<Rightarrow>
          (case sendWithRetry wr e syslogMessage (w\<lparr>stamps := Suc (stamps w)\<rparr>) of
             (Some err, wr', w') \<Rightarrow> (Returned (n, Some err), wr', w')
           | (None, wr', w') \<Rightarrow> forwardLoop c f e rest (n + 1) wr' w'))"

definition forwardEvents :: "Processor \<Rightarrow> env \<Rightarrow> fieldsMap list \<Rightarrow> world
    \<Rightarrow> (int \<times> error option) result \<times> Processor \<times> world" where
  "forwardEvents p e events w =
     (case forwardLoop (cfg p) (cefFormatter p) e events 0 (syslogWriter p) w of
        (r, wr, w') \<Rightarrow> (r, p\<lparr>syslogWriter := wr\<rparr>, w'))"

text \<open>
  The local variables of \<open>ProcessEvents\<close> that the loop changes, and the ways one
  iteration of its loop can end: at the end of the body or at \<open>continue\<close>
  (\<open>Next\<close>), at a \<open>break\<close>, at \<open>return\<close> with an error, or in a panic.
\<close>

record locals =
  totalEventsProcessed :: int
  paginationCount :: int
  currentMarker :: string
  markerUpdates :: int
  numErrors :: int

datatype step = Next locals | Break locals | ReturnErr error | Panics

text \<open>The part of the loop body from the marker update to its end.\<close>

definition advance :: "env \<Rightarrow> EventsPage \<Rightarrow> locals \<Rightarrow> Processor \<Rightarrow> world
    \<Rightarrow> step \<times> Processor \<times> world" where
  "advance e page l p w =
     (case (if NewMarker page \<noteq> [] \<and> NewMarker page \<noteq> currentMarker l then
              (let l1 = l\<lparr>currentMarker := NewMarker page\<rparr>
               in case Update (markerManager p) e (currentMarker l1) w of
                    (Some err, m, w1) \<Rightarrow>
                      (l1\<lparr>numErrors := numErrors l1 + 1\<rparr>, p\<lparr>markerManager := m\<rparr>, w1)
                  | (None, m, w1) \<Rightarrow>
                      (l1\<lparr>markerUpdates := markerUpdates l1 + 1\<rparr>, p\<lparr>markerManager := m\<rparr>, w1))
            else (l, p, w)) of
        (l2, p2, w2) \<Rightarrow>
          if \<not> HasMore page then (Break l2, p2, w2) else (Next l2, p2, w2))"

text \<open>One iteration of the loop of \<open>ProcessEvents\<close>, entered when its condition holds.\<close>

definition iteration :: "env \<Rightarrow> locals \<Rightarrow> Processor \<Rightarrow> world \<Rightarrow> step \<times> Processor \<times> world" where
  "iteration e l p w =
     (let w0 = w\<lparr>ctx_polls := Suc (ctx_polls w)\<rparr>
      in if ctx_done e (ctx_polls w) then (ReturnErr ErrContextCancelled, p, w0)
         else
           case FetchWithRetry e (currentMarker l) (RetryAttempts (cfg p)) w0 of
             (Inl err, w1) \<Rightarrow> (Break (l\<lparr>numErrors := numErrors l + 1\<rparr>), p, w1)
           | (Inr page, w1) \<Rightarrow>
               let l1 = l\<lparr>paginationCount := paginationCount l + 1\<rparr>
               in if length (Events page) > 0 then
                    (case forwardEvents p e (Events page) w1 of
                       (Panicked, p2, w2) \<Rightarrow> (Panics, p2, w2)
                     | (Returned (forwarded, Some err), p2, w2) \<Rightarrow>
                         (Next (l1\<lparr>numErrors := numErrors l1 + 1\<rparr>), p2, w2)
                     | (Returned (forwarded, None), p2, w2) \<Rightarrow>
                         advance e page
                           (l1\<lparr>totalEventsProcessed := totalEventsProcessed l1 + forwarded\<rparr>)
                           (p2\<lparr>stats := IncrementEventsForwarded (stats p2) forwarded\<rparr>)
                           w2)
                  else advance e page l1 p w1)"

text \<open>
  How a cycle ends: in a panic, with an error, or with \<open>nil\<close> after the summary line
  \<open>processing cycle complete\<close>, which prints the final values of the local variables.
\<close>

datatype outcome = Panic | Failed error | Completed locals

function paginate :: "env \<Rightarrow> locals \<Rightarrow> Processor \<Rightarrow> world \<Rightarrow> outcome \<times> Processor \<times> world" where
  "paginate e l p w =
     (if paginationCount l < MaxPagination (cfg p) then
        (case iteration e l p w of
           (Next l', p', w') \<Rightarrow> paginate e l' p' w'
         | (Break l', p', w') \<Rightarrow> (Completed l', p', w')
         | (ReturnErr err, p', w') \<Rightarrow> (Failed err, p', w')
         | (Panics, p', w') \<Rightarrow> (Panic, p', w'))
      else (Completed l, p, w))"
  by pat_completeness auto
termination
  apply (relation "measure (\<lambda>(e, l, p, w). nat (MaxPagination (cfg p) - paginationCount l))")
   apply simp
  apply (auto simp: iteration_def advance_def forwardEvents_def Let_def
              split: if_splits prod.splits sum.splits result.splits option.splits)
  done

definition ProcessEvents :: "Processor \<Rightarrow> env \<Rightarrow> world \<Rightarrow> outcome \<times> Processor \<times> world" where
  "ProcessEvents p e w =
     (let l0 = \<lparr>totalEventsProcessed = 0, paginationCount = 0,
                currentMarker = Get (markerManager p), markerUpdates = 0, numErrors = 0\<rparr>;
          p0 = p\<lparr>stats := IncrementAPIRequests (stats p)\<rparr>
      in paginate e l0 p0 w)"

text \<open>
  \<open>ProcessWithRecovery\<close>: the deferred function recovers a panic and counts it; the
  function then returns the zero value of its result, \<open>false\<close>.
\<close>

definition ProcessWithRecovery :: "Processor \<Rightarrow> env \<Rightarrow> world \<Rightarrow> bool \<times> Processor \<times> world" where
  "ProcessWithRecovery p e w =
     (case ProcessEvents p e w of
        (Panic, p', w') \<Rightarrow>
          (False, p'\<lparr>stats := IncrementFailedAPIRequests (stats p')\<rparr>, w')
      | (Failed err, p', w') \<Rightarrow>
          (False, p'\<lparr>stats := IncrementFailedAPIRequests (stats p')\<rparr>, w')
      | (Completed l, p', w') \<Rightarrow> (True, p', w'))"

section \<open>Service scheduler (func main)\<close>

text \<open>
  Arithmetic on \<open>time.Duration\<close> wraps around at 64 bits. \<open>onTick\<close> is the branch
  \<open>case <-ticker.C\<close> of the service loop after the cycle has reported \<open>success\<close>: it
  gives the argument of \<open>ticker.Reset\<close> and the new value of \<open>backoffDelay\<close>.
  \<open>ticker.Reset\<close> panics on a duration that is not positive, which ends the process.
\<close>

definition wrap64 :: "int \<Rightarrow> int" where
  "wrap64 x = (x + 2 ^ 63) mod 2 ^ 64 - 2 ^ 63"

definition maxBackoff :: "Config \<Rightarrow> int" where
  "maxBackoff c = wrap64 (MaxBackoffDelay c * Second)"

definition onTick :: "Config \<Rightarrow> bool \<Rightarrow> int \<Rightarrow> int \<times> int" where
  "onTick c success backoffDelay =
     (if success then (wrap64 (FetchInterval c * Second), 1 * Second)
      else (backoffDelay,
            let doubled = wrap64 (backoffDelay * 2)
            in if doubled > maxBackoff c then maxBackoff c else doubled))"

text \<open>
  What one \<open>select\<close> of the service loop receives: the cancellation of the context, a
  tick of the ticker (given with the result that \<open>ProcessWithRecovery\<close> then returns),
  the signal \<open>SIGHUP\<close>, or another of the signals that \<open>main\<close> asked for
  (interrupt, \<open>SIGTERM\<close>, \<open>SIGQUIT\<close>).
\<close>

datatype selected = CtxDone | TickerC bool | SigHUP | SigOther

text \<open>
  The \<open>for\<close> loop of \<open>main\<close> over what its \<open>select\<close> receives, from a given
  \<open>backoffDelay\<close>: the arguments given to \<open>ticker.Reset\<close>, in order, and the
  \<open>backoffDelay\<close> at the end. A cancelled context and a signal other than \<open>SIGHUP\<close>
  make \<open>main\<close> return; \<open>SIGHUP\<close> is logged and the loop goes on; a tick runs a cycle
  and resets the ticker. The empty list stands for a run that has been observed so far.
\<close>

fun serviceLoop :: "Config \<Rightarrow> selected list \<Rightarrow> int \<Rightarrow> (int list \<times> int) result" where
  "serviceLoop c [] backoffDelay = Returned ([], backoffDelay)"
| "serviceLoop c (CtxDone # rest) backoffDelay = Returned ([], backoffDelay)"
| "serviceLoop c (SigHUP # rest) backoffDelay = serviceLoop c rest backoffDelay"
| "serviceLoop c (SigOther # rest) backoffDelay = Returned ([], backoffDelay)"
| "serviceLoop c (TickerC success # rest) backoffDelay =
     (case onTick c success backoffDelay of
        (period, backoffDelay') \<Rightarrow>
          if period \<le> 0 then Panicked
          else (case serviceLoop c rest backoffDelay' of
                  Panicked \<Rightarrow> Panicked
                | Returned (resets, final) \<Rightarrow> Returned (period # resets, final)))"

text \<open>
  \<open>main\<close> from the creation of the ticker on: \<open>time.NewTicker\<close> starts the ticker
  with the period \<open>FetchInterval\<close> and panics on a duration that is not positive;
  \<open>backoffDelay\<close> starts at one second; the initial cycle is run before the loop and
  its result \<open>initial\<close> is only logged, with no \<open>ticker.Reset\<close> and no change of
  \<open>backoffDelay\<close>; then the loop runs. The result lists the periods of the ticker: the
  one it is created with, then the ones it is reset to.
\<close>

definition main :: "Config \<Rightarrow> bool \<Rightarrow> selected list \<Rightarrow> (int list \<times> int) result" where
  "main c initial events =
     (let period = wrap64 (FetchInterval c * Second);
          backoffDelay = 1 * Second
      in if period \<le> 0 then Panicked
         else (case serviceLoop c events backoffDelay of
                 Panicked \<Rightarrow> Panicked
               | Returned (resets, final) \<Rightarrow> Returned (period # resets, final)))"

section \<open>Relations between the states before and after a run\<close>

text \<open>
  \<open>marker_trace m w m' w'\<close>: between the world \<open>w\<close> and the world \<open>w'\<close> the marker
  file was written with the contents \<open>ps\<close>, each of them the candidate marker of a page
  obtained in between, and the cursor in memory moved from that of \<open>m\<close> to the last of
  them (or stayed, if there was none).
\<close>

definition marker_trace :: "Manager \<Rightarrow> world \<Rightarrow> Manager \<Rightarrow> world \<Rightarrow> bool" where
  "marker_trace m w m' w' =
     (\<exists>ps qs. written w' = written w @ ps \<and> pages w' = pages w @ qs \<and>
              marker m' = last (marker m # ps) \<and> set ps \<subseteq> NewMarker ` set qs)"

section \<open>Example inputs\<close>

text \<open>
  A configuration, a processor at the start of the service and a world in which only the
  first dial (that of \<open>NewWriter\<close>) has happened. \<open>ex_resp k\<close> is a response with two
  events and the marker \<open>m\<close> repeated \<open>k + 1\<close> times. The clock starts some 2025 years
  after the zero time and advances one second per reading.
\<close>

definition ex_cfg :: Config where
  "ex_cfg = \<lparr>MaxMsgSize = 1024, UseEventIP = False, CustomSourceIP = ''gw'',
     FetchInterval = 60, MaxPagination = 2, RetryAttempts = 1, RetryDelay = 2,
     MaxBackoffDelay = 300\<rparr>"

definition ex_fmt :: Formatter where
  "ex_fmt = \<lparr>vendor = ''V'', product = ''P'', version = ''1'',
     fieldMappings = [(''src_ip'', ''src'')], orderedFields = [''src'']\<rparr>"

definition ex_writer :: Writer where
  "ex_writer = \<lparr>conn = Some 0, reconnectCount = 0, lastReconnect = 0, maxReconnects = 10,
     reconnectDelay = 5 * Second\<rparr>"

definition ex_proc :: Processor where
  "ex_proc = \<lparr>cfg = ex_cfg, syslogWriter = ex_writer, cefFormatter = ex_fmt,
     markerManager = \<lparr>marker = []\<rparr>, stats = NewStats\<rparr>"

definition ex_world :: world where
  "ex_world = \<lparr>ctx_polls = 0, fetch_calls = 0, http_calls = 0, net_writes = 0,
     net_closes = 0, net_dials = 1, clock_reads = 0, fs_calls = 0, stamps = 0, sent = [],
     written = [], pages = []\<rparr>"

definition ex_resp :: "nat \<Rightarrow> EventsFeedResponse" where
  "ex_resp k = \<lparr>Marker = Some (replicate (Suc k) CHR ''m''), FetchedCount = 2,
     Accounts = [\<lparr>ID = ''1'', ErrorString = [],
                  Records = [[(''event_type'', ''Threat'')], [(''event_type'', ''Info'')]]\<rparr>],
     Errors = []\<rparr>"

text \<open>\<open>ex_env\<close>: nothing fails and nobody cancels.\<close>

definition ex_env :: env where
  "ex_env = \<lparr>ctx_done = (\<lambda>k. False),
     http_resp = (\<lambda>k mk. Response 200 (Some (ex_resp k))),
     write_ok = (\<lambda>k. True), dial_ok = (\<lambda>k. True),
     clock = (\<lambda>k. 63900000000 * Second + int k * Second),
     fs_res = (\<lambda>k. WriteFileOk), stamp = (\<lambda>k. ''Jan  1 00:00:00''),
     os_hostname = Some ''host''\<rparr>"

text \<open>The page made from \<open>ex_resp 0\<close>, a response with a marker and no events, and a
  response with events and no marker.\<close>

definition ex_page :: EventsPage where
  "ex_page = \<lparr>Events = [[(''event_type'', ''Threat'')], [(''event_type'', ''Info'')]],
     NewMarker = ''m'', HasMore = True\<rparr>"

definition ex_resp_empty :: EventsFeedResponse where
  "ex_resp_empty = \<lparr>Marker = Some ''m'', FetchedCount = 0, Accounts = [], Errors = []\<rparr>"

definition ex_resp_nomarker :: EventsFeedResponse where
  "ex_resp_nomarker = \<lparr>Marker = None, FetchedCount = 1,
     Accounts = [\<lparr>ID = ''1'', ErrorString = [], Records = [[(''event_type'', ''Info'')]]\<rparr>],
     Errors = []\<rparr>"

text \<open>\<open>ex_env_down\<close>: the collector is unreachable, every write and every dial fails.
  \<open>ex_first_reconnect\<close> is a first call of \<open>Reconnect\<close> in that environment.\<close>

definition ex_env_down :: env where
  "ex_env_down = ex_env\<lparr>write_ok := (\<lambda>k. False), dial_ok := (\<lambda>k. False)\<rparr>"

definition ex_first_reconnect :: "error option \<times> Writer \<times> world" where
  "ex_first_reconnect = Reconnect ex_writer ex_env_down ex_world"

text \<open>\<open>ex_fields\<close> is an event with the fields \<open>a\<close> and \<open>b\<close>. \<open>ex_fmt_ab\<close> and
  \<open>ex_fmt_ba\<close> hold the same rename table, which sends both \<open>a\<close> and \<open>b\<close> to the wire
  field \<open>x\<close>; they differ only in the order in which \<open>range\<close> visits its two entries.\<close>

definition ex_fields :: fieldsMap where
  "ex_fields = [(''a'', ''1''), (''b'', ''2'')]"

definition ex_fmt_ab :: Formatter where
  "ex_fmt_ab = \<lparr>vendor = ''V'', product = ''P'', version = ''1'',
     fieldMappings = [(''a'', ''x''), (''b'', ''x'')], orderedFields = []\<rparr>"

definition ex_fmt_ba :: Formatter where
  "ex_fmt_ba = \<lparr>vendor = ''V'', product = ''P'', version = ''1'',
     fieldMappings = [(''b'', ''x''), (''a'', ''x'')], orderedFields = []\<rparr>"

text \<open>\<open>ex_env_api_down\<close>: every round trip to the API fails. \<open>ex_env_drop\<close>: the
  collector takes the first line and then goes away. \<open>ex_env_cancel\<close>: cancellation is
  signalled after the first page. \<open>ex_proc_ten\<close> is \<open>ex_proc\<close> with a pagination
  ceiling of ten.\<close>

definition ex_env_api_down :: env where
  "ex_env_api_down = ex_env\<lparr>http_resp := (\<lambda>k mk. DoFails)\<rparr>"

definition ex_env_drop :: env where
  "ex_env_drop = ex_env\<lparr>write_ok := (\<lambda>k. k = 0), dial_ok := (\<lambda>k. False)\<rparr>"

definition ex_env_cancel :: env where
  "ex_env_cancel = ex_env\<lparr>ctx_done := (\<lambda>k. 1 \<le> k)\<rparr>"

definition ex_proc_ten :: Processor where
  "ex_proc_ten = ex_proc\<lparr>cfg := ex_cfg\<lparr>MaxPagination := 10\<rparr>\<rparr>"

declare paginate.simps [simp del] retryLoop.simps [simp del]

section \<open>Marker store: what a cycle does to the cursor\<close>

lemma marker_trace_refl: "marker_trace m w m w"
  by (simp add: marker_trace_def)

lemma marker_trace_trans:
  assumes "marker_trace m w m1 w1" and "marker_trace m1 w1 m2 w2"
  shows "marker_trace m w m2 w2"
proof -
  from assms(1) obtain ps qs where a: "written w1 = written w @ ps" "pages w1 = pages w @ qs"
      "marker m1 = last (marker m # ps)" "set ps \<subseteq> NewMarker ` set qs"
    unfolding marker_trace_def by blast
  from assms(2) obtain ps' qs' where b: "written w2 = written w1 @ ps'" "pages w2 = pages w1 @ qs'"
      "marker m2 = last (marker m1 # ps')" "set ps' \<subseteq> NewMarker ` set qs'"
    unfolding marker_trace_def by blast
  have "marker m2 = last (marker m # (ps @ ps'))"
    using a(3) b(3) by (cases ps' rule: rev_cases) auto
  moreover have "set (ps @ ps') \<subseteq> NewMarker ` set (qs @ qs')"
    using a(4) b(4) by auto
  ultimately show ?thesis
    unfolding marker_trace_def using a(1,2) b(1,2)
    by (intro exI[of _ "ps @ ps'"] exI[of _ "qs @ qs'"]) simp
qed

lemma Update_noop: "mk = [] \<or> mk = marker m \<Longrightarrow> Update m e mk w = (None, m, w)"
  by (simp add: Update_def)

lemma Update_ok:
  "mk \<noteq> [] \<Longrightarrow> mk \<noteq> marker m \<Longrightarrow> fs_res e (fs_calls w) = WriteFileOk \<Longrightarrow>
   Update m e mk w =
     (None, m\<lparr>marker := mk\<rparr>, w\<lparr>fs_calls := Suc (fs_calls w), written := written w @ [mk]\<rparr>)"
  by (simp add: Update_def Save_def)

lemma Update_fails:
  "mk \<noteq> [] \<Longrightarrow> mk \<noteq> marker m \<Longrightarrow> fs_res e (fs_calls w) \<noteq> WriteFileOk \<Longrightarrow>
   Update m e mk w =
     (Some (if fs_res e (fs_calls w) = MkdirAllFails then ErrMkdirAll else ErrWriteFile),
      m, w\<lparr>fs_calls := Suc (fs_calls w)\<rparr>)"
  by (cases "fs_res e (fs_calls w)") (simp_all add: Update_def Save_def)

lemma Update_effect:
  assumes "Update m e mk w = (r, m', w')"
  shows "pages w' = pages w \<and>
         (\<exists>ps. written w' = written w @ ps \<and> marker m' = last (marker m # ps) \<and> set ps \<subseteq> {mk})"
proof (cases "mk = [] \<or> mk = marker m")
  case True
  then have "Update m e mk w = (None, m, w)" by (rule Update_noop)
  with assms have "m' = m" "w' = w" by simp_all
  then show ?thesis by simp
next
  case False
  then have ne: "mk \<noteq> []" "mk \<noteq> marker m" by simp_all
  show ?thesis
  proof (cases "fs_res e (fs_calls w) = WriteFileOk")
    case True
    from Update_ok[OF ne True] assms
    have "m' = m\<lparr>marker := mk\<rparr>" "w' = w\<lparr>fs_calls := Suc (fs_calls w), written := written w @ [mk]\<rparr>"
      by simp_all
    then show ?thesis by (intro conjI exI[of _ "[mk]"]) simp_all
  next
    case no: False
    from Update_fails[OF ne no] assms
    have "m' = m" "w' = w\<lparr>fs_calls := Suc (fs_calls w)\<rparr>"
      by simp_all
    then show ?thesis by (intro conjI exI[of _ "[]"]) simp_all
  qed
qed

lemma retryLoop_effect:
  "retryLoop e mk maxAttempts attempt lastErr w = (r, w') \<Longrightarrow>
   written w' = written w \<and>
   (\<forall>page. r = Inr page \<longrightarrow> pages w' = pages w @ [page]) \<and>
   (\<forall>err. r = Inl err \<longrightarrow> pages w' = pages w)"
proof (induction e mk maxAttempts attempt lastErr w rule: retryLoop.induct)
  case (1 e mk maxAttempts attempt lastErr w)
  show ?case
  proof (cases "attempt < maxAttempts")
    case False
    with "1.prems" show ?thesis by (auto simp: retryLoop.simps[of e mk maxAttempts attempt])
  next
    case True
    show ?thesis
    proof (cases "FetchEventsPage (http_resp e (http_calls w) mk)")
      case (Inr page)
      with True "1.prems" show ?thesis
        by (auto simp: retryLoop.simps[of e mk maxAttempts attempt] Let_def split: sum.splits)
    next
      case (Inl err)
      with True "1.prems" have "retryLoop e mk maxAttempts (attempt + 1) (Some err)
            (w\<lparr>http_calls := Suc (http_calls w)\<rparr>) = (r, w')"
        by (simp add: retryLoop.simps[of e mk maxAttempts attempt] Let_def)
      from "1.IH"[OF True refl Inl this] show ?thesis by simp
    qed
  qed
qed

lemma Write_effect:
  "Write wr e msg w = (r, w') \<Longrightarrow> written w' = written w \<and> pages w' = pages w"
  by (auto simp: Write_def Let_def split: option.splits if_splits)

lemma Reconnect_effect:
  "Reconnect wr e w = (r, wr', w') \<Longrightarrow> written w' = written w \<and> pages w' = pages w"
  by (auto simp: Reconnect_def Let_def split: if_splits)

lemma sendWithRetry_effect:
  "sendWithRetry wr e msg w = (r, wr', w') \<Longrightarrow> written w' = written w \<and> pages w' = pages w"
  unfolding sendWithRetry_def
  by (auto split: prod.splits option.splits dest!: Write_effect Reconnect_effect)

lemma forwardLoop_effect:
  "forwardLoop c f e events n wr w = (r, wr', w') \<Longrightarrow>
   written w' = written w \<and> pages w' = pages w"
proof (induction events arbitrary: n wr w)
  case Nil
  then show ?case by simp
next
  case (Cons fm rest)
  show ?case
  proof (cases "syslogLine c f e fm (stamps w)")
    case Panicked
    with Cons.prems show ?thesis by auto
  next
    case (Returned msg)
    obtain r1 wr1 w1 where s: "sendWithRetry wr e msg (w\<lparr>stamps := Suc (stamps w)\<rparr>) = (r1, wr1, w1)"
      by (metis prod_cases3)
    from sendWithRetry_effect[OF s] have eq: "written w1 = written w" "pages w1 = pages w"
      by simp_all
    show ?thesis
    proof (cases r1)
      case None
      with Cons.prems Returned s have "forwardLoop c f e rest (n + 1) wr1 w1 = (r, wr', w')"
        by simp
      from Cons.IH[OF this] eq show ?thesis by simp
    next
      case (Some err)
      with Cons.prems Returned s eq show ?thesis by auto
    qed
  qed
qed

lemma forwardEvents_effect:
  "forwardEvents p e events w = (r, p', w') \<Longrightarrow>
   written w' = written w \<and> pages w' = pages w \<and> markerManager p' = markerManager p
   \<and> cfg p' = cfg p"
  unfolding forwardEvents_def
  by (auto split: prod.splits dest!: forwardLoop_effect)

lemma advance_effect:
  assumes "advance e page l p w = (st, p', w')"
  shows "pages w' = pages w \<and> cfg p' = cfg p \<and>
         (\<exists>ps. written w' = written w @ ps \<and>
               marker (markerManager p') = last (marker (markerManager p) # ps) \<and>
               set ps \<subseteq> {NewMarker page})"
proof (cases "NewMarker page \<noteq> [] \<and> NewMarker page \<noteq> currentMarker l")
  case False
  with assms have "p' = p" "w' = w"
    by (auto simp: advance_def split: if_splits)
  then show ?thesis by (intro conjI exI[of _ "[]"]) simp_all
next
  case True
  obtain r m1 w1 where u: "Update (markerManager p) e (NewMarker page) w = (r, m1, w1)"
    by (metis prod_cases3)
  from Update_effect[OF u] obtain ps where ps: "pages w1 = pages w" "written w1 = written w @ ps"
      "marker m1 = last (marker (markerManager p) # ps)" "set ps \<subseteq> {NewMarker page}"
    by blast
  have "p' = p\<lparr>markerManager := m1\<rparr> \<and> w' = w1"
  proof (cases r)
    case None
    with assms True u show ?thesis by (simp add: advance_def Let_def split: if_splits)
  next
    case (Some err)
    with assms True u show ?thesis by (simp add: advance_def Let_def split: if_splits)
  qed
  with ps show ?thesis by (intro conjI exI[of _ ps]) simp_all
qed

lemma FetchWithRetry_effect:
  "FetchWithRetry e mk maxAttempts w = (r, w') \<Longrightarrow>
   written w' = written w \<and>
   (\<forall>page. r = Inr page \<longrightarrow> pages w' = pages w @ [page]) \<and>
   (\<forall>err. r = Inl err \<longrightarrow> pages w' = pages w)"
  unfolding FetchWithRetry_def by (drule retryLoop_effect) simp


lemma iteration_cases:
  assumes it: "iteration e l p w = (st, p', w')"
  obtains
    (cancel) "ctx_done e (ctx_polls w)" "st = ReturnErr ErrContextCancelled" "p' = p"
      "w' = w\<lparr>ctx_polls := Suc (ctx_polls w)\<rparr>"
  | (fetch_fail) err where "\<not> ctx_done e (ctx_polls w)"
      "FetchWithRetry e (currentMarker l) (RetryAttempts (cfg p))
         (w\<lparr>ctx_polls := Suc (ctx_polls w)\<rparr>) = (Inl err, w')"
      "st = Break (l\<lparr>numErrors := numErrors l + 1\<rparr>)" "p' = p"
  | (empty) page w1 where "\<not> ctx_done e (ctx_polls w)"
      "FetchWithRetry e (currentMarker l) (RetryAttempts (cfg p))
         (w\<lparr>ctx_polls := Suc (ctx_polls w)\<rparr>) = (Inr page, w1)"
      "Events page = []"
      "advance e page (l\<lparr>paginationCount := paginationCount l + 1\<rparr>) p w1 = (st, p', w')"
  | (panic) page w1 where "\<not> ctx_done e (ctx_polls w)"
      "FetchWithRetry e (currentMarker l) (RetryAttempts (cfg p))
         (w\<lparr>ctx_polls := Suc (ctx_polls w)\<rparr>) = (Inr page, w1)"
      "Events page \<noteq> []"
      "forwardEvents p e (Events page) w1 = (Panicked, p', w')" "st = Panics"
  | (fwd_fail) page w1 n err where "\<not> ctx_done e (ctx_polls w)"
      "FetchWithRetry e (currentMarker l) (RetryAttempts (cfg p))
         (w\<lparr>ctx_polls := Suc (ctx_polls w)\<rparr>) = (Inr page, w1)"
      "Events page \<noteq> []"
      "forwardEvents p e (Events page) w1 = (Returned (n, Some err), p', w')"
      "st = Next (l\<lparr>paginationCount := paginationCount l + 1, numErrors := numErrors l + 1\<rparr>)"
  | (fwd_ok) page w1 n p2 w2 where "\<not> ctx_done e (ctx_polls w)"
      "FetchWithRetry e (currentMarker l) (RetryAttempts (cfg p))
         (w\<lparr>ctx_polls := Suc (ctx_polls w)\<rparr>) = (Inr page, w1)"
      "Events page \<noteq> []"
      "forwardEvents p e (Events page) w1 = (Returned (n, None), p2, w2)"
      "advance e page
         (l\<lparr>paginationCount := paginationCount l + 1,
            totalEventsProcessed := totalEventsProcessed l + n\<rparr>)
         (p2\<lparr>stats := IncrementEventsForwarded (stats p2) n\<rparr>) w2 = (st, p', w')"
proof (cases "ctx_done e (ctx_polls w)")
  case True
  with it have "st = ReturnErr ErrContextCancelled" "p' = p"
      "w' = w\<lparr>ctx_polls := Suc (ctx_polls w)\<rparr>"
    by (simp_all add: iteration_def Let_def)
  with True show ?thesis by (rule cancel)
next
  case nc: False
  obtain r w1 where f: "FetchWithRetry e (currentMarker l) (RetryAttempts (cfg p))
        (w\<lparr>ctx_polls := Suc (ctx_polls w)\<rparr>) = (r, w1)"
    by force
  show ?thesis
  proof (cases r)
    case (Inl err)
    with it nc f have "st = Break (l\<lparr>numErrors := numErrors l + 1\<rparr>)" "p' = p" "w' = w1"
      by (simp_all add: iteration_def Let_def)
    with nc f Inl show ?thesis by (auto intro: fetch_fail)
  next
    case (Inr page)
    show ?thesis
    proof (cases "Events page = []")
      case True
      with it nc f Inr
      have "advance e page (l\<lparr>paginationCount := paginationCount l + 1\<rparr>) p w1 = (st, p', w')"
        by (simp add: iteration_def Let_def)
      with nc f Inr True show ?thesis by (auto intro: empty)
    next
      case ne: False
      obtain fr p2 w2 where fw: "forwardEvents p e (Events page) w1 = (fr, p2, w2)"
        by (metis prod_cases3)
      show ?thesis
      proof (cases fr)
        case Panicked
        with it nc f Inr ne fw have "st = Panics" "p' = p2" "w' = w2"
          by (simp_all add: iteration_def Let_def)
        with nc f Inr ne fw Panicked show ?thesis by (auto intro: panic)
      next
        case (Returned res)
        obtain n oerr where res: "res = (n, oerr)" by force
        show ?thesis
        proof (cases oerr)
          case (Some err)
          with it nc f Inr ne fw Returned res
          have "st = Next (l\<lparr>paginationCount := paginationCount l + 1,
                             numErrors := numErrors l + 1\<rparr>)" "p' = p2" "w' = w2"
            by (simp_all add: iteration_def Let_def)
          with nc f Inr ne fw Returned res Some show ?thesis by (auto intro: fwd_fail)
        next
          case None
          with it nc f Inr ne fw Returned res
          have "advance e page
                  (l\<lparr>paginationCount := paginationCount l + 1,
                     totalEventsProcessed := totalEventsProcessed l + n\<rparr>)
                  (p2\<lparr>stats := IncrementEventsForwarded (stats p2) n\<rparr>) w2 = (st, p', w')"
            by (simp add: iteration_def Let_def)
          with nc f Inr ne fw Returned res None show ?thesis by (auto intro: fwd_ok)
        qed
      qed
    qed
  qed
qed

lemma marker_traceI:
  "written w' = written w @ ps \<Longrightarrow> pages w' = pages w @ qs \<Longrightarrow>
   marker m' = last (marker m # ps) \<Longrightarrow> set ps \<subseteq> NewMarker ` set qs \<Longrightarrow>
   marker_trace m w m' w'"
  unfolding marker_trace_def by blast

lemma advance_trace:
  assumes "advance e page l p w1 = (st, p', w')"
    and "written w1 = written w" and "pages w1 = pages w @ [page]"
    and "markerManager p = m"
  shows "marker_trace m w (markerManager p') w'"
proof -
  from advance_effect[OF assms(1)] obtain ps where
    ps: "pages w' = pages w1" "written w' = written w1 @ ps"
        "marker (markerManager p') = last (marker (markerManager p) # ps)"
        "set ps \<subseteq> {NewMarker page}"
    by blast
  show ?thesis
  proof (rule marker_traceI[where ps=ps and qs="[page]"])
    show "written w' = written w @ ps" using ps(2) assms(2) by simp
    show "pages w' = pages w @ [page]" using ps(1) assms(3) by simp
    show "marker (markerManager p') = last (marker m # ps)" using ps(3) assms(4) by simp
    show "set ps \<subseteq> NewMarker ` set [page]" using ps(4) by simp
  qed
qed

lemma same_trace:
  assumes "written w' = written w" and "pages w' = pages w @ qs"
  shows "marker_trace m w m w'"
  by (rule marker_traceI[where ps="[]" and qs=qs]) (simp_all add: assms)

lemma iteration_trace:
  assumes "iteration e l p w = (st, p', w')"
  shows "marker_trace (markerManager p) w (markerManager p') w'"
  using assms
proof (cases rule: iteration_cases)
  case cancel
  then show ?thesis by (simp add: same_trace[where qs="[]"])
next
  case (fetch_fail err)
  from FetchWithRetry_effect[OF fetch_fail(2)] fetch_fail(4) show ?thesis
    by (simp add: same_trace[where qs="[]"])
next
  case (empty page w1)
  from FetchWithRetry_effect[OF empty(2)] advance_trace[OF empty(4), where w=w and m="markerManager p"]
  show ?thesis by simp
next
  case (panic page w1)
  from FetchWithRetry_effect[OF panic(2)] forwardEvents_effect[OF panic(4)]
  show ?thesis by (simp add: same_trace[where qs="[page]"])
next
  case (fwd_fail page w1 n err)
  from FetchWithRetry_effect[OF fwd_fail(2)] forwardEvents_effect[OF fwd_fail(4)]
  show ?thesis by (simp add: same_trace[where qs="[page]"])
next
  case (fwd_ok page w1 n p2 w2)
  from FetchWithRetry_effect[OF fwd_ok(2)] forwardEvents_effect[OF fwd_ok(4)]
  have "written w2 = written w" "pages w2 = pages w @ [page]"
       "markerManager (p2\<lparr>stats := IncrementEventsForwarded (stats p2) n\<rparr>) = markerManager p"
    by simp_all
  from advance_trace[OF fwd_ok(5) this] show ?thesis .
qed

lemma paginate_trace:
  "paginate e l p w = (out, p', w') \<Longrightarrow>
   marker_trace (markerManager p) w (markerManager p') w'"
proof (induction e l p w rule: paginate.induct)
  case (1 e l p w)
  show ?case
  proof (cases "paginationCount l < MaxPagination (cfg p)")
    case False
    with "1.prems" show ?thesis
      by (simp add: paginate.simps[of e l p w] marker_trace_refl)
  next
    case True
    obtain st p1 w1 where it: "iteration e l p w = (st, p1, w1)"
      by (metis prod_cases3)
    note tr = iteration_trace[OF it]
    show ?thesis
    proof (cases st)
      case (Next l1)
      with True it "1.prems" have "paginate e l1 p1 w1 = (out, p', w')"
        by (simp add: paginate.simps[of e l p w])
      from "1.IH"[OF True it[symmetric] _ _ this] Next
      have "marker_trace (markerManager p1) w1 (markerManager p') w'" by simp
      with tr show ?thesis by (blast intro: marker_trace_trans)
    next
      case (Break l1)
      with True it "1.prems" tr show ?thesis by (auto simp: paginate.simps[of e l p w])
    next
      case (ReturnErr err)
      with True it "1.prems" tr show ?thesis by (auto simp: paginate.simps[of e l p w])
    next
      case Panics
      with True it "1.prems" tr show ?thesis by (auto simp: paginate.simps[of e l p w])
    qed
  qed
qed

lemma ProcessEvents_trace:
  assumes "ProcessEvents p e w = (out, p', w')"
  shows "marker_trace (markerManager p) w (markerManager p') w'"
proof -
  from assms have "paginate e
      \<lparr>totalEventsProcessed = 0, paginationCount = 0, currentMarker = Get (markerManager p),
         markerUpdates = 0, numErrors = 0\<rparr>
      (p\<lparr>stats := IncrementAPIRequests (stats p)\<rparr>) w = (out, p', w')"
    by (simp add: ProcessEvents_def Let_def)
  from paginate_trace[OF this] show ?thesis by simp
qed

lemma marker_trace_drop:
  assumes "marker_trace m w m' w'"
  shows "let ps = drop (length (written w)) (written w');
             qs = drop (length (pages w)) (pages w')
         in written w' = written w @ ps \<and> pages w' = pages w @ qs \<and>
            marker m' = last (marker m # ps) \<and> set ps \<subseteq> NewMarker ` set qs"
proof -
  from assms obtain ps qs where a: "written w' = written w @ ps" "pages w' = pages w @ qs"
      "marker m' = last (marker m # ps)" "set ps \<subseteq> NewMarker ` set qs"
    unfolding marker_trace_def by blast
  have "drop (length (written w)) (written w') = ps" "drop (length (pages w)) (pages w') = qs"
    using a(1,2) by simp_all
  with a show ?thesis by (simp add: Let_def)
qed

text \<open>
  C1. \<open>Update m mk\<close> with \<open>mk\<close> empty or equal to the cursor in memory returns \<open>nil\<close>
  and changes neither the manager nor the world. Otherwise, when the file system accepts
  the write, the cursor in memory becomes \<open>mk\<close> and \<open>mk\<close> is what the file holds; when
  \<open>os.MkdirAll\<close> or \<open>os.WriteFile\<close> fails, the call returns the error and the manager
  is unchanged. Consequently a cycle (\<open>ProcessEvents\<close>) leaves in memory the last
  content that it wrote to the marker file with success, every such content is the
  candidate marker of a page fetched in that cycle, and the cursor is unchanged when no
  write succeeded.
\<close>

theorem marker_store_atomic:
  "(mk = [] \<or> mk = marker m \<longrightarrow> Update m e mk w = (None, m, w)) \<and>
   (mk \<noteq> [] \<and> mk \<noteq> marker m \<and> fs_res e (fs_calls w) = WriteFileOk \<longrightarrow>
      Update m e mk w =
        (None, m\<lparr>marker := mk\<rparr>,
         w\<lparr>fs_calls := Suc (fs_calls w), written := written w @ [mk]\<rparr>)) \<and>
   (mk \<noteq> [] \<and> mk \<noteq> marker m \<and> fs_res e (fs_calls w) \<noteq> WriteFileOk \<longrightarrow>
      Update m e mk w =
        (Some (if fs_res e (fs_calls w) = MkdirAllFails then ErrMkdirAll else ErrWriteFile),
         m, w\<lparr>fs_calls := Suc (fs_calls w)\<rparr>)) \<and>
   (ProcessEvents p e w0 = (out, p', w') \<longrightarrow>
      (let ps = drop (length (written w0)) (written w');
           qs = drop (length (pages w0)) (pages w')
       in written w' = written w0 @ ps \<and> pages w' = pages w0 @ qs \<and>
          marker (markerManager p') = last (marker (markerManager p) # ps) \<and>
          set ps \<subseteq> NewMarker ` set qs))"
proof (intro conjI impI)
  assume "mk = [] \<or> mk = marker m"
  then show "Update m e mk w = (None, m, w)" by (rule Update_noop)
next
  assume "mk \<noteq> [] \<and> mk \<noteq> marker m \<and> fs_res e (fs_calls w) = WriteFileOk"
  then show "Update m e mk w =
        (None, m\<lparr>marker := mk\<rparr>,
         w\<lparr>fs_calls := Suc (fs_calls w), written := written w @ [mk]\<rparr>)"
    by (simp add: Update_ok)
next
  assume "mk \<noteq> [] \<and> mk \<noteq> marker m \<and> fs_res e (fs_calls w) \<noteq> WriteFileOk"
  then show "Update m e mk w =
        (Some (if fs_res e (fs_calls w) = MkdirAllFails then ErrMkdirAll else ErrWriteFile),
         m, w\<lparr>fs_calls := Suc (fs_calls w)\<rparr>)"
    using Update_fails[of mk m e w] by simp
next
  assume "ProcessEvents p e w0 = (out, p', w')"
  then have "marker_trace (markerManager p) w0 (markerManager p') w'"
    by (rule ProcessEvents_trace)
  then show "let ps = drop (length (written w0)) (written w');
                 qs = drop (length (pages w0)) (pages w')
             in written w' = written w0 @ ps \<and> pages w' = pages w0 @ qs \<and>
                marker (markerManager p') = last (marker (markerManager p) # ps) \<and>
                set ps \<subseteq> NewMarker ` set qs"
    by (rule marker_trace_drop)
qed

theorem marker_store_atomic_witness:
  "Update \<lparr>marker = ''m''\<rparr> ex_env ''m'' ex_world = (None, \<lparr>marker = ''m''\<rparr>, ex_world) \<and>
   Update \<lparr>marker = ''m''\<rparr> ex_env ''mm'' ex_world =
     (None, \<lparr>marker = ''mm''\<rparr>, ex_world\<lparr>fs_calls := 1, written := [''mm'']\<rparr>) \<and>
   Update \<lparr>marker = ''m''\<rparr> (ex_env\<lparr>fs_res := \<lambda>k. WriteFileFails\<rparr>) ''mm'' ex_world =
     (Some ErrWriteFile, \<lparr>marker = ''m''\<rparr>, ex_world\<lparr>fs_calls := 1\<rparr>) \<and>
   written (snd (snd (ProcessEvents ex_proc ex_env ex_world))) = [''m'', ''mm''] \<and>
   marker (markerManager (fst (snd (ProcessEvents ex_proc ex_env ex_world)))) = ''mm''"
proof -
  have run: "written (snd (snd (ProcessEvents ex_proc ex_env ex_world))) = [''m'', ''mm'']"
    by code_simp
  have init: "written ex_world = []" "fs_calls ex_world = 0" "marker (markerManager ex_proc) = []"
    by (simp_all add: ex_world_def ex_proc_def)
  have fs: "fs_res ex_env 0 = WriteFileOk"
    by (simp add: ex_env_def)
  note inst = marker_store_atomic[where m = "\<lparr>marker = ''m''\<rparr>" and w = ex_world and w0 = ex_world
      and p = ex_proc and out = "fst (ProcessEvents ex_proc ex_env ex_world)"
      and p' = "fst (snd (ProcessEvents ex_proc ex_env ex_world))"
      and w' = "snd (snd (ProcessEvents ex_proc ex_env ex_world))"]
  show ?thesis
    using inst[where mk = "''m''" and e = ex_env] inst[where mk = "''mm''" and e = ex_env]
      inst[where mk = "''mm''" and e = "ex_env\<lparr>fs_res := \<lambda>k. WriteFileFails\<rparr>"] run init fs
    by (simp add: Let_def)
qed

section \<open>Remote fetcher: the more-data flag\<close>

text \<open>
  C8. When \<open>FetchEventsPage\<close> succeeds, the round trip gave status 200 with a body that
  parses and carries no GraphQL error, the page holds the records of the accounts without
  an error string, and \<open>HasMore\<close> is true exactly when the response has a marker, the
  marker is not empty and at least one record was extracted.
\<close>

theorem HasMore_heuristic:
  "FetchEventsPage out = Inr page \<longrightarrow>
     (\<exists>resp. out = Response 200 (Some resp) \<and> Errors resp = [] \<and>
             Events page = extractEvents resp \<and>
             NewMarker page = (case Marker resp of Some mk \<Rightarrow> mk | None \<Rightarrow> []) \<and>
             (HasMore page \<longleftrightarrow>
                (\<exists>mk. Marker resp = Some mk \<and> mk \<noteq> []) \<and> length (Events page) > 0))"
proof
  assume ok: "FetchEventsPage out = Inr page"
  then obtain status body where out: "out = Response status body"
    by (cases out) (simp_all add: FetchEventsPage_def)
  with ok have st: "status = 200"
    by (auto simp: FetchEventsPage_def split: if_splits)
  with ok out obtain resp where body: "body = Some resp"
    by (cases body) (simp_all add: FetchEventsPage_def)
  with ok out st have errs: "Errors resp = []"
    by (cases "Errors resp") (simp_all add: FetchEventsPage_def)
  have "Events page = extractEvents resp \<and>
        NewMarker page = (case Marker resp of Some mk \<Rightarrow> mk | None \<Rightarrow> []) \<and>
        (HasMore page \<longleftrightarrow>
           (\<exists>mk. Marker resp = Some mk \<and> mk \<noteq> []) \<and> length (Events page) > 0)"
  proof (cases "Marker resp")
    case None
    with ok out st body errs show ?thesis
      by (auto simp: FetchEventsPage_def Let_def)
  next
    case (Some mk)
    with ok out st body errs show ?thesis
      by (auto simp: FetchEventsPage_def Let_def)
  qed
  with out st body errs show "\<exists>resp. out = Response 200 (Some resp) \<and> Errors resp = [] \<and>
             Events page = extractEvents resp \<and>
             NewMarker page = (case Marker resp of Some mk \<Rightarrow> mk | None \<Rightarrow> []) \<and>
             (HasMore page \<longleftrightarrow>
                (\<exists>mk. Marker resp = Some mk \<and> mk \<noteq> []) \<and> length (Events page) > 0)"
    by blast
qed

theorem HasMore_heuristic_witness:
  "FetchEventsPage (Response 200 (Some (ex_resp 0))) = Inr ex_page \<and> HasMore ex_page \<and>
   (\<exists>resp. Response 200 (Some (ex_resp 0)) = Response 200 (Some resp) \<and> Errors resp = [] \<and>
           Events ex_page = extractEvents resp \<and>
           NewMarker ex_page = (case Marker resp of Some mk \<Rightarrow> mk | None \<Rightarrow> []) \<and>
           (HasMore ex_page \<longleftrightarrow>
              (\<exists>mk. Marker resp = Some mk \<and> mk \<noteq> []) \<and> length (Events ex_page) > 0)) \<and>
   FetchEventsPage (Response 200 (Some ex_resp_empty)) =
     Inr \<lparr>Events = [], NewMarker = ''m'', HasMore = False\<rparr> \<and>
   FetchEventsPage (Response 200 (Some ex_resp_nomarker)) =
     Inr \<lparr>Events = [[(''event_type'', ''Info'')]], NewMarker = [], HasMore = False\<rparr>"
proof -
  have a: "FetchEventsPage (Response 200 (Some (ex_resp 0))) = Inr ex_page"
    by (simp add: FetchEventsPage_def ex_resp_def ex_page_def extractEvents_def Let_def)
  have b: "HasMore ex_page"
    by (simp add: ex_page_def)
  have c: "FetchEventsPage (Response 200 (Some ex_resp_empty)) =
     Inr \<lparr>Events = [], NewMarker = ''m'', HasMore = False\<rparr>"
    by (simp add: FetchEventsPage_def ex_resp_empty_def extractEvents_def Let_def)
  have d: "FetchEventsPage (Response 200 (Some ex_resp_nomarker)) =
     Inr \<lparr>Events = [[(''event_type'', ''Info'')]], NewMarker = [], HasMore = False\<rparr>"
    by (simp add: FetchEventsPage_def ex_resp_nomarker_def extractEvents_def Let_def)
  from HasMore_heuristic[of "Response 200 (Some (ex_resp 0))" ex_page] a b c d
  show ?thesis by blast
qed

section \<open>Delivery channel: reconnection\<close>

lemma Since_less_iff:
  "minDuration < d \<Longrightarrow> d \<le> maxDuration \<Longrightarrow> (Since now t < d) = (now - t < d)"
  by (auto simp: Since_def Sub_def Let_def)

lemma Reconnect_rate_limited:
  "Since (clock e (clock_reads w)) (lastReconnect wr) < reconnectDelay wr \<Longrightarrow>
   Reconnect wr e w = (Some ErrRateLimited, wr, w\<lparr>clock_reads := Suc (clock_reads w)\<rparr>)"
  by (simp add: Reconnect_def Let_def)

lemma Reconnect_max:
  "reconnectDelay wr \<le> Since (clock e (clock_reads w)) (lastReconnect wr) \<Longrightarrow>
   maxReconnects wr \<le> reconnectCount wr \<Longrightarrow>
   Reconnect wr e w = (Some ErrMaxReconnects, wr, w\<lparr>clock_reads := Suc (clock_reads w)\<rparr>)"
  by (simp add: Reconnect_def Let_def)

lemma Reconnect_success:
  "reconnectDelay wr \<le> Since (clock e (clock_reads w)) (lastReconnect wr) \<Longrightarrow>
   reconnectCount wr < maxReconnects wr \<Longrightarrow> dial_ok e (net_dials w) \<Longrightarrow>
   Reconnect wr e w =
     (None,
      wr\<lparr>conn := Some (net_dials w), reconnectCount := 0,
         lastReconnect := clock e (Suc (clock_reads w))\<rparr>,
      w\<lparr>clock_reads := Suc (Suc (clock_reads w)),
        net_closes := (if conn wr \<noteq> None then Suc (net_closes w) else net_closes w),
        net_dials := Suc (net_dials w)\<rparr>)"
  by (simp add: Reconnect_def Let_def)

lemma Reconnect_failure:
  "reconnectDelay wr \<le> Since (clock e (clock_reads w)) (lastReconnect wr) \<Longrightarrow>
   reconnectCount wr < maxReconnects wr \<Longrightarrow> \<not> dial_ok e (net_dials w) \<Longrightarrow>
   Reconnect wr e w =
     (Some ErrDial,
      wr\<lparr>reconnectCount := reconnectCount wr + 1, lastReconnect := 0\<rparr>,
      w\<lparr>clock_reads := Suc (clock_reads w),
        net_closes := (if conn wr \<noteq> None then Suc (net_closes w) else net_closes w),
        net_dials := Suc (net_dials w)\<rparr>)"
  by (simp add: Reconnect_def Let_def)

lemma Reconnect_refused_at_ceiling:
  assumes "maxReconnects wr \<le> reconnectCount wr"
  shows "\<exists>r. Reconnect wr e w = (Some r, wr, w\<lparr>clock_reads := Suc (clock_reads w)\<rparr>) \<and>
             r \<in> {ErrRateLimited, ErrMaxReconnects}"
proof (cases "Since (clock e (clock_reads w)) (lastReconnect wr) < reconnectDelay wr")
  case True
  then show ?thesis by (simp add: Reconnect_rate_limited)
next
  case False
  with assms show ?thesis by (simp add: Reconnect_max)
qed

lemma reconnectMany_at_ceiling:
  assumes "maxReconnects wr \<le> reconnectCount wr"
  shows "\<exists>rs. reconnectMany k wr e w = (rs, wr, w\<lparr>clock_reads := clock_reads w + k\<rparr>) \<and>
              length rs = k \<and> set rs \<subseteq> {Some ErrRateLimited, Some ErrMaxReconnects}"
proof (induction k arbitrary: w)
  case 0
  show ?case by simp
next
  case (Suc k)
  from Reconnect_refused_at_ceiling[OF assms, of e w] obtain r where
    r: "Reconnect wr e w = (Some r, wr, w\<lparr>clock_reads := Suc (clock_reads w)\<rparr>)"
       "r \<in> {ErrRateLimited, ErrMaxReconnects}"
    by blast
  from Suc.IH[of "w\<lparr>clock_reads := Suc (clock_reads w)\<rparr>"] obtain rs where
    rs: "reconnectMany k wr e (w\<lparr>clock_reads := Suc (clock_reads w)\<rparr>) =
           (rs, wr, w\<lparr>clock_reads := Suc (clock_reads w) + k\<rparr>)"
        "length rs = k" "set rs \<subseteq> {Some ErrRateLimited, Some ErrMaxReconnects}"
    by auto
  have "reconnectMany (Suc k) wr e w = (Some r # rs, wr, w\<lparr>clock_reads := clock_reads w + Suc k\<rparr>)"
    using r(1) rs(1) by simp
  moreover have "length (Some r # rs) = Suc k" using rs(2) by simp
  moreover have "set (Some r # rs) \<subseteq> {Some ErrRateLimited, Some ErrMaxReconnects}"
    using r(2) rs(3) by auto
  ultimately show ?case by blast
qed

text \<open>
  C5, as the code has it. \<open>Reconnect\<close> is refused, and touches neither the connection
  nor the writer, when the time since \<open>lastReconnect\<close> is below \<open>reconnectDelay\<close> or
  when \<open>reconnectCount\<close> has reached \<open>maxReconnects\<close>; once the counter is at the
  ceiling every later call is refused as well, whatever the clock says. Otherwise it
  dials: a successful dial sets the counter to zero and \<open>lastReconnect\<close> to the
  current time, a failed dial adds one to the counter, reports the error and sets
  \<open>lastReconnect\<close> to the zero time. So the cooldown window follows a successful
  reconnect only: a call inside the window after a success is refused, while the call
  that follows a failed attempt dials again however soon it comes.
\<close>

theorem Reconnect_spec:
  "(Since (clock e (clock_reads w)) (lastReconnect wr) < reconnectDelay wr \<longrightarrow>
      Reconnect wr e w = (Some ErrRateLimited, wr, w\<lparr>clock_reads := Suc (clock_reads w)\<rparr>)) \<and>
   (reconnectDelay wr \<le> Since (clock e (clock_reads w)) (lastReconnect wr) \<and>
    maxReconnects wr \<le> reconnectCount wr \<longrightarrow>
      Reconnect wr e w = (Some ErrMaxReconnects, wr, w\<lparr>clock_reads := Suc (clock_reads w)\<rparr>)) \<and>
   (maxReconnects wr \<le> reconnectCount wr \<longrightarrow>
      (\<exists>rs. reconnectMany k wr e w = (rs, wr, w\<lparr>clock_reads := clock_reads w + k\<rparr>) \<and>
            length rs = k \<and> set rs \<subseteq> {Some ErrRateLimited, Some ErrMaxReconnects})) \<and>
   (reconnectDelay wr \<le> Since (clock e (clock_reads w)) (lastReconnect wr) \<and>
    reconnectCount wr < maxReconnects wr \<and> dial_ok e (net_dials w) \<longrightarrow>
      Reconnect wr e w =
        (None,
         wr\<lparr>conn := Some (net_dials w), reconnectCount := 0,
            lastReconnect := clock e (Suc (clock_reads w))\<rparr>,
         w\<lparr>clock_reads := Suc (Suc (clock_reads w)),
           net_closes := (if conn wr \<noteq> None then Suc (net_closes w) else net_closes w),
           net_dials := Suc (net_dials w)\<rparr>)) \<and>
   (reconnectDelay wr \<le> Since (clock e (clock_reads w)) (lastReconnect wr) \<and>
    reconnectCount wr < maxReconnects wr \<and> \<not> dial_ok e (net_dials w) \<longrightarrow>
      Reconnect wr e w =
        (Some ErrDial,
         wr\<lparr>reconnectCount := reconnectCount wr + 1, lastReconnect := 0\<rparr>,
         w\<lparr>clock_reads := Suc (clock_reads w),
           net_closes := (if conn wr \<noteq> None then Suc (net_closes w) else net_closes w),
           net_dials := Suc (net_dials w)\<rparr>)) \<and>
   (Reconnect wr e w = (None, wr', w') \<and>
    minDuration < reconnectDelay wr \<and> reconnectDelay wr \<le> maxDuration \<and>
    clock e (clock_reads w'') - lastReconnect wr' < reconnectDelay wr \<longrightarrow>
      Reconnect wr' e w'' = (Some ErrRateLimited, wr', w''\<lparr>clock_reads := Suc (clock_reads w'')\<rparr>)) \<and>
   (Reconnect wr e w = (Some ErrDial, wr', w') \<and>
    reconnectDelay wr \<le> maxDuration \<and> reconnectDelay wr \<le> clock e (clock_reads w'') \<and>
    reconnectCount wr' < maxReconnects wr' \<longrightarrow>
      net_dials (snd (snd (Reconnect wr' e w''))) = Suc (net_dials w''))"
proof (intro conjI impI)
  assume "Since (clock e (clock_reads w)) (lastReconnect wr) < reconnectDelay wr"
  then show "Reconnect wr e w = (Some ErrRateLimited, wr, w\<lparr>clock_reads := Suc (clock_reads w)\<rparr>)"
    by (rule Reconnect_rate_limited)
next
  assume "reconnectDelay wr \<le> Since (clock e (clock_reads w)) (lastReconnect wr) \<and>
    maxReconnects wr \<le> reconnectCount wr"
  then show "Reconnect wr e w = (Some ErrMaxReconnects, wr, w\<lparr>clock_reads := Suc (clock_reads w)\<rparr>)"
    by (simp add: Reconnect_max)
next
  assume "maxReconnects wr \<le> reconnectCount wr"
  then show "\<exists>rs. reconnectMany k wr e w = (rs, wr, w\<lparr>clock_reads := clock_reads w + k\<rparr>) \<and>
            length rs = k \<and> set rs \<subseteq> {Some ErrRateLimited, Some ErrMaxReconnects}"
    by (rule reconnectMany_at_ceiling)
next
  assume "reconnectDelay wr \<le> Since (clock e (clock_reads w)) (lastReconnect wr) \<and>
    reconnectCount wr < maxReconnects wr \<and> dial_ok e (net_dials w)"
  then show "Reconnect wr e w =
        (None,
         wr\<lparr>conn := Some (net_dials w), reconnectCount := 0,
            lastReconnect := clock e (Suc (clock_reads w))\<rparr>,
         w\<lparr>clock_reads := Suc (Suc (clock_reads w)),
           net_closes := (if conn wr \<noteq> None then Suc (net_closes w) else net_closes w),
           net_dials := Suc (net_dials w)\<rparr>)"
    by (simp add: Reconnect_success)
next
  assume "reconnectDelay wr \<le> Since (clock e (clock_reads w)) (lastReconnect wr) \<and>
    reconnectCount wr < maxReconnects wr \<and> \<not> dial_ok e (net_dials w)"
  then show "Reconnect wr e w =
        (Some ErrDial,
         wr\<lparr>reconnectCount := reconnectCount wr + 1, lastReconnect := 0\<rparr>,
         w\<lparr>clock_reads := Suc (clock_reads w),
           net_closes := (if conn wr \<noteq> None then Suc (net_closes w) else net_closes w),
           net_dials := Suc (net_dials w)\<rparr>)"
    by (simp add: Reconnect_failure)
next
  assume a: "Reconnect wr e w = (None, wr', w') \<and>
    minDuration < reconnectDelay wr \<and> reconnectDelay wr \<le> maxDuration \<and>
    clock e (clock_reads w'') - lastReconnect wr' < reconnectDelay wr"
  then have "reconnectDelay wr' = reconnectDelay wr"
    by (auto simp: Reconnect_def Let_def split: if_splits)
  with a have "Since (clock e (clock_reads w'')) (lastReconnect wr') < reconnectDelay wr'"
    by (simp add: Since_less_iff)
  then show "Reconnect wr' e w'' = (Some ErrRateLimited, wr', w''\<lparr>clock_reads := Suc (clock_reads w'')\<rparr>)"
    by (rule Reconnect_rate_limited)
next
  assume a: "Reconnect wr e w = (Some ErrDial, wr', w') \<and>
    reconnectDelay wr \<le> maxDuration \<and> reconnectDelay wr \<le> clock e (clock_reads w'') \<and>
    reconnectCount wr' < maxReconnects wr'"
  then have wq: "reconnectDelay wr' = reconnectDelay wr" "lastReconnect wr' = 0"
    by (auto simp: Reconnect_def Let_def split: if_splits)
  with a have "reconnectDelay wr' \<le> Since (clock e (clock_reads w'')) (lastReconnect wr')"
    by (auto simp: Since_def Sub_def Let_def minDuration_def maxDuration_def)
  with a show "net_dials (snd (snd (Reconnect wr' e w''))) = Suc (net_dials w'')"
    by (cases "dial_ok e (net_dials w'')") (simp_all add: Reconnect_success Reconnect_failure)
qed

theorem Reconnect_spec_witness:
  "Reconnect (ex_writer\<lparr>lastReconnect := 63900000000 * Second\<rparr>) ex_env
       (ex_world\<lparr>clock_reads := 1\<rparr>) =
     (Some ErrRateLimited, ex_writer\<lparr>lastReconnect := 63900000000 * Second\<rparr>,
      ex_world\<lparr>clock_reads := 2\<rparr>) \<and>
   Reconnect (ex_writer\<lparr>reconnectCount := 10\<rparr>) ex_env ex_world =
     (Some ErrMaxReconnects, ex_writer\<lparr>reconnectCount := 10\<rparr>, ex_world\<lparr>clock_reads := 1\<rparr>) \<and>
   (\<exists>rs. reconnectMany 3 (ex_writer\<lparr>reconnectCount := 10\<rparr>) ex_env ex_world =
           (rs, ex_writer\<lparr>reconnectCount := 10\<rparr>, ex_world\<lparr>clock_reads := 3\<rparr>) \<and>
         length rs = 3 \<and> set rs \<subseteq> {Some ErrRateLimited, Some ErrMaxReconnects}) \<and>
   Reconnect ex_writer ex_env ex_world =
     (None, ex_writer\<lparr>conn := Some 1, lastReconnect := 63900000001 * Second\<rparr>,
      ex_world\<lparr>clock_reads := 2, net_closes := 1, net_dials := 2\<rparr>) \<and>
   Reconnect ex_writer ex_env_down ex_world =
     (Some ErrDial, ex_writer\<lparr>reconnectCount := 1\<rparr>,
      ex_world\<lparr>clock_reads := 1, net_closes := 1, net_dials := 2\<rparr>) \<and>
   Reconnect (ex_writer\<lparr>conn := Some 1, lastReconnect := 63900000001 * Second\<rparr>) ex_env
       (ex_world\<lparr>clock_reads := 2, net_closes := 1, net_dials := 2\<rparr>) =
     (Some ErrRateLimited, ex_writer\<lparr>conn := Some 1, lastReconnect := 63900000001 * Second\<rparr>,
      ex_world\<lparr>clock_reads := 3, net_closes := 1, net_dials := 2\<rparr>) \<and>
   net_dials (snd (snd (Reconnect (ex_writer\<lparr>reconnectCount := 1\<rparr>) ex_env_down
       (ex_world\<lparr>clock_reads := 1, net_closes := 1, net_dials := 2\<rparr>)))) = 3"
proof -
  have ev: "clock ex_env k = 63900000000 * Second + int k * Second"
           "clock ex_env_down k = 63900000000 * Second + int k * Second"
           "dial_ok ex_env k" "\<not> dial_ok ex_env_down k" for k
    by (simp_all add: ex_env_def ex_env_down_def)
  have wd: "reconnectDelay ex_writer = 5 * Second" "maxReconnects ex_writer = 10"
           "reconnectCount ex_writer = 0" "lastReconnect ex_writer = 0" "conn ex_writer = Some 0"
    by (simp_all add: ex_writer_def)
  have ww: "clock_reads ex_world = 0" "net_dials ex_world = 1" "net_closes ex_world = 0"
    by (simp_all add: ex_world_def)
  note k = Second_def Since_def Sub_def Let_def maxDuration_def minDuration_def
  have c1: "Reconnect (ex_writer\<lparr>lastReconnect := 63900000000 * Second\<rparr>) ex_env
       (ex_world\<lparr>clock_reads := 1\<rparr>) =
     (Some ErrRateLimited, ex_writer\<lparr>lastReconnect := 63900000000 * Second\<rparr>,
      ex_world\<lparr>clock_reads := 2\<rparr>)"
    using Reconnect_spec[where wr = "ex_writer\<lparr>lastReconnect := 63900000000 * Second\<rparr>"
        and e = ex_env and w = "ex_world\<lparr>clock_reads := 1\<rparr>"]
    by (simp add: ev wd ww k)
  have c2: "Reconnect (ex_writer\<lparr>reconnectCount := 10\<rparr>) ex_env ex_world =
     (Some ErrMaxReconnects, ex_writer\<lparr>reconnectCount := 10\<rparr>, ex_world\<lparr>clock_reads := 1\<rparr>)"
    using Reconnect_spec[where wr = "ex_writer\<lparr>reconnectCount := 10\<rparr>"
        and e = ex_env and w = ex_world]
    by (simp add: ev wd ww k)
  have c3: "\<exists>rs. reconnectMany 3 (ex_writer\<lparr>reconnectCount := 10\<rparr>) ex_env ex_world =
           (rs, ex_writer\<lparr>reconnectCount := 10\<rparr>, ex_world\<lparr>clock_reads := 3\<rparr>) \<and>
         length rs = 3 \<and> set rs \<subseteq> {Some ErrRateLimited, Some ErrMaxReconnects}"
    using Reconnect_spec[where wr = "ex_writer\<lparr>reconnectCount := 10\<rparr>"
        and e = ex_env and w = ex_world and k = 3]
    by (simp add: wd ww)
  have c4: "Reconnect ex_writer ex_env ex_world =
     (None, ex_writer\<lparr>conn := Some 1, lastReconnect := 63900000001 * Second\<rparr>,
      ex_world\<lparr>clock_reads := 2, net_closes := 1, net_dials := 2\<rparr>)"
    using Reconnect_spec[where wr = ex_writer and e = ex_env and w = ex_world]
    by (simp add: ev wd ww k)
  have c5: "Reconnect ex_writer ex_env_down ex_world =
     (Some ErrDial, ex_writer\<lparr>reconnectCount := 1\<rparr>,
      ex_world\<lparr>clock_reads := 1, net_closes := 1, net_dials := 2\<rparr>)"
    using Reconnect_spec[where wr = ex_writer and e = ex_env_down and w = ex_world]
    by (simp add: ev wd ww k)
  have c6: "Reconnect (ex_writer\<lparr>conn := Some 1, lastReconnect := 63900000001 * Second\<rparr>) ex_env
       (ex_world\<lparr>clock_reads := 2, net_closes := 1, net_dials := 2\<rparr>) =
     (Some ErrRateLimited, ex_writer\<lparr>conn := Some 1, lastReconnect := 63900000001 * Second\<rparr>,
      ex_world\<lparr>clock_reads := 3, net_closes := 1, net_dials := 2\<rparr>)"
    using Reconnect_spec[where wr = ex_writer and e = ex_env and w = ex_world
        and wr' = "ex_writer\<lparr>conn := Some 1, lastReconnect := 63900000001 * Second\<rparr>"
        and w' = "ex_world\<lparr>clock_reads := 2, net_closes := 1, net_dials := 2\<rparr>"
        and w'' = "ex_world\<lparr>clock_reads := 2, net_closes := 1, net_dials := 2\<rparr>"] c4
    by (simp add: ev wd ww k)
  have c7: "net_dials (snd (snd (Reconnect (ex_writer\<lparr>reconnectCount := 1\<rparr>) ex_env_down
       (ex_world\<lparr>clock_reads := 1, net_closes := 1, net_dials := 2\<rparr>)))) = 3"
    using Reconnect_spec[where wr = ex_writer and e = ex_env_down and w = ex_world
        and wr' = "ex_writer\<lparr>reconnectCount := 1\<rparr>"
        and w' = "ex_world\<lparr>clock_reads := 1, net_closes := 1, net_dials := 2\<rparr>"
        and w'' = "ex_world\<lparr>clock_reads := 1, net_closes := 1, net_dials := 2\<rparr>"] c5
    by (simp add: ev wd ww k)
  from c1 c2 c3 c4 c5 c6 c7 show ?thesis by blast
qed

text \<open>
  The claim as the specification words it fails after a failed attempt: with the collector
  unreachable, a first \<open>Reconnect\<close> dials and fails; a second call one second later,
  well inside the window of five seconds, is not refused but dials again.
\<close>

theorem Reconnect_cooldown_counterexample:
  "fst ex_first_reconnect = Some ErrDial \<and>
   reconnectDelay (fst (snd ex_first_reconnect)) = 5 * Second \<and>
   clock ex_env_down (clock_reads (snd (snd ex_first_reconnect)))
     - clock ex_env_down (clock_reads ex_world) = 1 * Second \<and>
   fst (Reconnect (fst (snd ex_first_reconnect)) ex_env_down (snd (snd ex_first_reconnect)))
     = Some ErrDial \<and>
   net_dials (snd (snd (Reconnect (fst (snd ex_first_reconnect)) ex_env_down
                           (snd (snd ex_first_reconnect)))))
     = Suc (net_dials (snd (snd ex_first_reconnect)))"
  by code_simp

section \<open>Service scheduler: the backoff delay\<close>

lemma wrap64_id: "- (2 ^ 63) \<le> x \<Longrightarrow> x < 2 ^ 63 \<Longrightarrow> wrap64 x = x"
  by (simp add: wrap64_def)

lemma Second_pos: "0 < Second"
  by (simp add: Second_def)

lemma maxBackoff_valid:
  assumes "1 \<le> MaxBackoffDelay c" and "MaxBackoffDelay c \<le> 4611686018"
  shows "maxBackoff c = MaxBackoffDelay c * Second"
    and "Second \<le> maxBackoff c" and "maxBackoff c < 2 ^ 62"
proof -
  have lo: "Second \<le> MaxBackoffDelay c * Second"
    using assms(1) by (simp add: Second_def)
  have hi: "MaxBackoffDelay c * Second < 2 ^ 62"
    using assms(2) by (simp add: Second_def)
  from lo hi have "wrap64 (MaxBackoffDelay c * Second) = MaxBackoffDelay c * Second"
    by (intro wrap64_id) (simp_all add: Second_def)
  then show "maxBackoff c = MaxBackoffDelay c * Second"
    by (simp add: maxBackoff_def)
  with lo hi show "Second \<le> maxBackoff c" and "maxBackoff c < 2 ^ 62"
    by simp_all
qed

lemma onTick_failure:
  assumes "Second \<le> d" and "d \<le> maxBackoff c" and "maxBackoff c < 2 ^ 62"
  shows "onTick c False d = (d, min (2 * d) (maxBackoff c))"
proof -
  have "0 < d" using assms(1) Second_pos by linarith
  then have "wrap64 (d * 2) = d * 2"
    using assms(2,3) by (intro wrap64_id) simp_all
  then show ?thesis
    by (auto simp: onTick_def Let_def min_def)
qed

lemma min_double:
  fixes a M :: int
  assumes "0 \<le> a" and "0 \<le> M"
  shows "min (2 * min a M) M = min (2 * a) M"
  using assms by (auto simp: min_def)

lemma upt_Suc_shift: "map f [0..<Suc k] = f 0 # map (\<lambda>i. f (Suc i)) [0..<k]"
proof -
  have "[0..<Suc k] = 0 # map Suc [0..<k]"
    by (simp add: upt_conv_Cons map_Suc_upt del: upt_Suc)
  then show ?thesis by (simp add: comp_def del: upt_Suc)
qed

lemma onTick_success: "onTick c True d = (wrap64 (FetchInterval c * Second), Second)"
  by (simp add: onTick_def)

lemma failures_from_power:
  assumes "Second \<le> maxBackoff c" and "maxBackoff c < 2 ^ 62"
  shows "serviceLoop c (replicate k (TickerC False)) (min (2 ^ j * Second) (maxBackoff c)) =
           Returned (map (\<lambda>i. min (2 ^ (j + i) * Second) (maxBackoff c)) [0..<k],
                     min (2 ^ (j + k) * Second) (maxBackoff c))"
proof (induction k arbitrary: j)
  case 0
  show ?case by simp
next
  case (Suc k)
  let ?M = "maxBackoff c"
  let ?d = "min (2 ^ j * Second) ?M"
  have p: "Second \<le> (2::int) ^ j * Second"
    using Second_pos by simp
  then have d: "Second \<le> ?d" "?d \<le> ?M" using assms(1) by simp_all
  have step: "onTick c False ?d = (?d, min (2 ^ Suc j * Second) ?M)"
  proof -
    have "min (2 * ?d) ?M = min (2 * (2 ^ j * Second)) ?M"
      using p Second_pos assms(1) by (intro min_double) linarith+
    then show ?thesis using onTick_failure[OF d assms(2)] by simp
  qed
  have "\<not> ?d \<le> 0" using d(1) Second_pos by linarith
  then have pos: "(?d \<le> 0) = False" by blast
  have "serviceLoop c (replicate (Suc k) (TickerC False)) ?d =
          Returned (?d # map (\<lambda>i. min (2 ^ (Suc j + i) * Second) ?M) [0..<k],
                    min (2 ^ (Suc j + k) * Second) ?M)"
    using step pos Suc.IH[of "Suc j"] by simp
  moreover have "map (\<lambda>i. min (2 ^ (j + i) * Second) ?M) [0..<Suc k] =
          ?d # map (\<lambda>i. min (2 ^ (Suc j + i) * Second) ?M) [0..<k]"
    by (subst upt_Suc_shift) simp
  ultimately show ?case by simp
qed

lemma serviceLoop_invariant:
  assumes M: "Second \<le> maxBackoff c" "maxBackoff c < 2 ^ 62"
    and P: "0 < wrap64 (FetchInterval c * Second)"
  shows "Second \<le> d \<Longrightarrow> d \<le> maxBackoff c \<Longrightarrow>
         \<exists>resets d'. serviceLoop c (map TickerC outcomes) d = Returned (resets, d') \<and>
           length resets = length outcomes \<and> Second \<le> d' \<and> d' \<le> maxBackoff c \<and>
           (\<forall>i<length outcomes. \<not> outcomes ! i \<longrightarrow>
               Second \<le> resets ! i \<and> resets ! i \<le> maxBackoff c)"
proof (induction outcomes arbitrary: d)
  case Nil
  then show ?case by simp
next
  case (Cons s rest)
  let ?P = "wrap64 (FetchInterval c * Second)"
  show ?case
  proof (cases s)
    case True
    from Cons.IH[of Second] M(1) obtain resets d' where
      r: "serviceLoop c (map TickerC rest) Second = Returned (resets, d')"
         "length resets = length rest"
         "Second \<le> d'" "d' \<le> maxBackoff c"
         "\<forall>i<length rest. \<not> rest ! i \<longrightarrow> Second \<le> resets ! i \<and> resets ! i \<le> maxBackoff c"
      by auto
    have pos: "(?P \<le> 0) = False" using P by simp
    have "serviceLoop c (map TickerC (s # rest)) d = Returned (?P # resets, d')"
      using True onTick_success[of c d] pos r(1) by simp
    moreover have "\<forall>i<length (s # rest). \<not> (s # rest) ! i \<longrightarrow>
        Second \<le> (?P # resets) ! i \<and> (?P # resets) ! i \<le> maxBackoff c"
      using True r(5) by (auto simp: nth_Cons split: nat.splits)
    ultimately show ?thesis using r(2,3,4) by auto
  next
    case False
    let ?d' = "min (2 * d) (maxBackoff c)"
    have d': "Second \<le> ?d'" "?d' \<le> maxBackoff c"
      using Cons.prems Second_pos M(1) by auto
    from Cons.IH[OF d'] obtain resets d'' where
      r: "serviceLoop c (map TickerC rest) ?d' = Returned (resets, d'')"
         "length resets = length rest"
         "Second \<le> d''" "d'' \<le> maxBackoff c"
         "\<forall>i<length rest. \<not> rest ! i \<longrightarrow> Second \<le> resets ! i \<and> resets ! i \<le> maxBackoff c"
      by auto
    have "\<not> d \<le> 0" using Cons.prems(1) Second_pos by linarith
    then have pos: "(d \<le> 0) = False" by blast
    have "serviceLoop c (map TickerC (s # rest)) d = Returned (d # resets, d'')"
      using False onTick_failure[OF Cons.prems M(2)] pos r(1) by simp
    moreover have "\<forall>i<length (s # rest). \<not> (s # rest) ! i \<longrightarrow>
        Second \<le> (d # resets) ! i \<and> (d # resets) ! i \<le> maxBackoff c"
      using Cons.prems r(5) by (auto simp: nth_Cons split: nat.splits)
    ultimately show ?thesis using r(2,3,4) by auto
  qed
qed

lemma serviceLoop_append:
  "serviceLoop c (map TickerC xs) d = Returned (r1, d1) \<Longrightarrow>
   serviceLoop c ys d1 = Returned (r2, d2) \<Longrightarrow>
   serviceLoop c (map TickerC xs @ ys) d = Returned (r1 @ r2, d2)"
proof (induction xs arbitrary: d r1)
  case Nil
  then show ?case by simp
next
  case (Cons s xs)
  obtain period d' where t: "onTick c s d = (period, d')" by force
  with Cons.prems(1) have pos: "\<not> period \<le> 0"
    by (auto split: if_splits)
  with t Cons.prems(1) obtain r where r: "serviceLoop c (map TickerC xs) d' = Returned (r, d1)"
      "r1 = period # r"
    by (auto split: result.splits)
  from Cons.IH[OF r(1) Cons.prems(2)] t pos r(2) show ?case by simp
qed

lemma serviceLoop_SigHUP:
  "serviceLoop c (filter (\<lambda>x. x \<noteq> SigHUP) events) d = serviceLoop c events d"
  by (induction c events d rule: serviceLoop.induct) (simp_all split: prod.splits)

lemma main_Returned:
  "serviceLoop c events Second = Returned (resets, d') \<Longrightarrow>
   0 < wrap64 (FetchInterval c * Second) \<Longrightarrow>
   main c initial events = Returned (wrap64 (FetchInterval c * Second) # resets, d')"
  by (simp add: main_def Let_def)

text \<open>
  C6, as the code has it. The initial cycle is outside the backoff: whatever its
  result, the ticker keeps the period \<open>FetchInterval\<close> it was created with and the
  delay stays at the base of one second; \<open>SIGHUP\<close> changes nothing either. For the
  cycles run on ticks, with a ceiling \<open>MaxBackoffDelay\<close> of at least the base that
  fits a 64-bit duration when doubled, and a period \<open>FetchInterval\<close> that the ticker
  accepts: \<open>k\<close> failures in a row, from the start or after any success in any sequence
  of outcomes, reset the ticker to \<open>1, 2, 4, \<dots>\<close> seconds, each capped at the ceiling,
  the \<open>i\<close>-th of them (counting from zero) to \<open>min (2 ^ i) ceiling\<close>; a success sets
  the delay to the base; and through every sequence of outcomes the loop keeps running
  with a stored delay, and a delay used after each failure, between the base and the
  ceiling.
\<close>

theorem backoff_schedule:
  assumes "1 \<le> MaxBackoffDelay c" and "MaxBackoffDelay c \<le> 4611686018"
    and "0 < wrap64 (FetchInterval c * Second)"
  shows "maxBackoff c = MaxBackoffDelay c * Second \<and>
    main c False events = main c True events \<and>
    main c initial (filter (\<lambda>x. x \<noteq> SigHUP) events) = main c initial events \<and>
    main c initial (replicate k (TickerC False)) =
      Returned (wrap64 (FetchInterval c * Second)
                  # map (\<lambda>i. min (2 ^ i * Second) (maxBackoff c)) [0..<k],
                min (2 ^ k * Second) (maxBackoff c)) \<and>
    snd (onTick c True d) = Second \<and>
    (\<exists>resets d'.
        main c initial (map TickerC outcomes)
          = Returned (wrap64 (FetchInterval c * Second) # resets, d') \<and>
        length resets = length outcomes \<and> Second \<le> d' \<and> d' \<le> maxBackoff c \<and>
        (\<forall>i<length outcomes. \<not> outcomes ! i \<longrightarrow>
            Second \<le> resets ! i \<and> resets ! i \<le> maxBackoff c) \<and>
        main c initial (map TickerC outcomes @ TickerC True # replicate k (TickerC False)) =
          Returned (wrap64 (FetchInterval c * Second)
                      # resets @ wrap64 (FetchInterval c * Second)
                      # map (\<lambda>i. min (2 ^ i * Second) (maxBackoff c)) [0..<k],
                    min (2 ^ k * Second) (maxBackoff c)))"
proof -
  let ?P = "wrap64 (FetchInterval c * Second)"
  note M = maxBackoff_valid[OF assms(1,2)]
  note P = assms(3)
  have base: "min (2 ^ 0 * Second) (maxBackoff c) = Second"
    using M(2) by simp
  have fails: "serviceLoop c (replicate k (TickerC False)) Second =
      Returned (map (\<lambda>i. min (2 ^ i * Second) (maxBackoff c)) [0..<k],
                min (2 ^ k * Second) (maxBackoff c))"
    using failures_from_power[OF M(2,3), of k 0] base by simp
  have a: "main c False events = main c True events"
    by (simp add: main_def)
  have b: "main c initial (filter (\<lambda>x. x \<noteq> SigHUP) events) = main c initial events"
    unfolding main_def serviceLoop_SigHUP ..
  have f: "main c initial (replicate k (TickerC False)) =
      Returned (?P # map (\<lambda>i. min (2 ^ i * Second) (maxBackoff c)) [0..<k],
                min (2 ^ k * Second) (maxBackoff c))"
    using main_Returned[OF fails P] .
  have succ: "snd (onTick c True d) = Second"
    by (simp add: onTick_success)
  have any: "\<exists>resets d'.
        main c initial (map TickerC outcomes) = Returned (?P # resets, d') \<and>
        length resets = length outcomes \<and> Second \<le> d' \<and> d' \<le> maxBackoff c \<and>
        (\<forall>i<length outcomes. \<not> outcomes ! i \<longrightarrow>
            Second \<le> resets ! i \<and> resets ! i \<le> maxBackoff c) \<and>
        main c initial (map TickerC outcomes @ TickerC True # replicate k (TickerC False)) =
          Returned (?P # resets @ ?P # map (\<lambda>i. min (2 ^ i * Second) (maxBackoff c)) [0..<k],
                    min (2 ^ k * Second) (maxBackoff c))"
  proof -
    from serviceLoop_invariant[OF M(2,3) P, of Second outcomes] M(2) obtain resets d' where
      r: "serviceLoop c (map TickerC outcomes) Second = Returned (resets, d')"
         "length resets = length outcomes"
         "Second \<le> d'" "d' \<le> maxBackoff c"
         "\<forall>i<length outcomes. \<not> outcomes ! i \<longrightarrow>
            Second \<le> resets ! i \<and> resets ! i \<le> maxBackoff c"
      by auto
    have pos: "(?P \<le> 0) = False" using P by simp
    have "serviceLoop c (TickerC True # replicate k (TickerC False)) d' =
        Returned (?P # map (\<lambda>i. min (2 ^ i * Second) (maxBackoff c)) [0..<k],
                  min (2 ^ k * Second) (maxBackoff c))"
      using onTick_success[of c d'] pos fails by simp
    from serviceLoop_append[OF r(1) this]
    have "serviceLoop c (map TickerC outcomes @ TickerC True # replicate k (TickerC False)) Second
        = Returned (resets @ ?P # map (\<lambda>i. min (2 ^ i * Second) (maxBackoff c)) [0..<k],
                    min (2 ^ k * Second) (maxBackoff c))" .
    from main_Returned[OF r(1) P, of initial] main_Returned[OF this P, of initial] r(2,3,4,5)
    show ?thesis by blast
  qed
  from M(1) a b f succ any show ?thesis by blast
qed

theorem backoff_schedule_witness:
  "maxBackoff ex_cfg = 300 * Second \<and>
   main ex_cfg False (replicate 4 (TickerC False)) =
     Returned ([60 * Second, 1 * Second, 2 * Second, 4 * Second, 8 * Second], 16 * Second) \<and>
   main ex_cfg True (replicate 10 (TickerC False)) =
     Returned ([60 * Second, 1 * Second, 2 * Second, 4 * Second, 8 * Second, 16 * Second,
                32 * Second, 64 * Second, 128 * Second, 256 * Second, 300 * Second],
               300 * Second) \<and>
   snd (onTick ex_cfg True (8 * Second)) = Second \<and>
   main ex_cfg True (map TickerC [False, False] @ TickerC True # replicate 2 (TickerC False)) =
     Returned ([60 * Second, 1 * Second, 2 * Second, 60 * Second, 1 * Second, 2 * Second],
               4 * Second)"
proof -
  have w: "wrap64 (FetchInterval ex_cfg * Second) = 60 * Second"
    by (simp add: ex_cfg_def Second_def wrap64_def)
  have c: "1 \<le> MaxBackoffDelay ex_cfg" "MaxBackoffDelay ex_cfg \<le> 4611686018"
          "0 < wrap64 (FetchInterval ex_cfg * Second)"
    by (simp_all add: w) (simp_all add: ex_cfg_def Second_def)
  have v: "MaxBackoffDelay ex_cfg = 300"
    by (simp add: ex_cfg_def)
  have u: "[0..<2] = [0, 1 :: nat]" "[0..<4] = [0, 1, 2, 3 :: nat]"
          "[0..<10] = [0, 1, 2, 3, 4, 5, 6, 7, 8, 9 :: nat]"
    by code_simp+
  note b = backoff_schedule[OF c]
  have m: "maxBackoff ex_cfg = 300 * Second"
    using b[of "[]" True 0 Second "[]"] v by simp
  have two: "main ex_cfg True (map TickerC [False, False]) =
      Returned ([60 * Second, 1 * Second, 2 * Second], 4 * Second)"
    using b[of "[]" True 2 Second "[]"] m w
    by (simp add: Second_def u numeral_2_eq_2)
  have four: "main ex_cfg False (replicate 4 (TickerC False)) =
     Returned ([60 * Second, 1 * Second, 2 * Second, 4 * Second, 8 * Second], 16 * Second)"
    using b[of "[]" False 4 Second "[]"] m w by (simp add: Second_def u)
  have ten: "main ex_cfg True (replicate 10 (TickerC False)) =
     Returned ([60 * Second, 1 * Second, 2 * Second, 4 * Second, 8 * Second, 16 * Second,
                32 * Second, 64 * Second, 128 * Second, 256 * Second, 300 * Second],
               300 * Second)"
    using b[of "[]" True 10 Second "[]"] m w by (simp add: Second_def u)
  have s: "snd (onTick ex_cfg True (8 * Second)) = Second"
    using b[of "[]" True 0 "8 * Second" "[]"] by simp
  have mix: "main ex_cfg True (map TickerC [False, False] @ TickerC True # replicate 2 (TickerC False)) =
     Returned ([60 * Second, 1 * Second, 2 * Second, 60 * Second, 1 * Second, 2 * Second],
               4 * Second)"
    using b[of "[]" True 2 Second "[False, False]"] m w two
    by (simp add: Second_def u)
  from m four ten s mix show ?thesis by blast
qed

text \<open>
  The claim as the specification words it fails in three ways. A failed initial cycle
  is followed by the ordinary period of 60 seconds, and the failure after it by the
  base of one second, so the second failure in a row is followed by 1 and not by 2. With
  no ceiling configured (\<open>MaxBackoffDelay\<close> 0) the first failed tick cycle leaves the
  stored delay at 0, below the base, and the second makes \<open>ticker.Reset\<close> panic. With
  a ceiling of 4611686019 seconds the doubling of the ceiling wraps around to a
  negative delay, and after 35 failures \<open>ticker.Reset\<close> panics.
\<close>

theorem backoff_schedule_counterexample:
  "main ex_cfg False [TickerC False, TickerC False]
     = Returned ([60 * Second, 1 * Second, 2 * Second], 4 * Second) \<and>
   main (ex_cfg\<lparr>MaxBackoffDelay := 0\<rparr>) True [TickerC False]
     = Returned ([60 * Second, 1 * Second], 0) \<and>
   main (ex_cfg\<lparr>MaxBackoffDelay := 0\<rparr>) True [TickerC False, TickerC False] = Panicked \<and>
   main (ex_cfg\<lparr>MaxBackoffDelay := 4611686019\<rparr>) True (replicate 35 (TickerC False))
     = Panicked"
  by code_simp

section \<open>Event formatter: the order of the rename table\<close>

text \<open>
  C9. The output of \<open>Format\<close> depends on the order in which the rename table is
  visited when two of its source fields share a wire field: the entry visited last
  wins. On the same event and the same table, one order gives \<open>x=2\<close> and the other
  \<open>x=1\<close>.
\<close>

theorem Format_depends_on_mapping_order:
  "set (fieldMappings ex_fmt_ab) = set (fieldMappings ex_fmt_ba) \<and>
   Format ex_fmt_ab ex_fields = ''CEF:0|V|P|1|Unknown|Unknown - Unknown|5|x=2'' \<and>
   Format ex_fmt_ba ex_fields = ''CEF:0|V|P|1|Unknown|Unknown - Unknown|5|x=1''"
  by code_simp

section \<open>Cycle orchestrator: what each step leaves alone\<close>

lemma Write_frame:
  assumes "Write wr e msg w = (r, w')"
  shows "ctx_polls w' = ctx_polls w" "fetch_calls w' = fetch_calls w"
    "http_calls w' = http_calls w" "stamps w' = stamps w"
    "r = None \<Longrightarrow> sent w' = sent w @ [msg]" "r \<noteq> None \<Longrightarrow> sent w' = sent w"
  using assms by (auto simp: Write_def Let_def split: option.splits if_splits)

lemma Reconnect_frame:
  assumes "Reconnect wr e w = (r, wr', w')"
  shows "ctx_polls w' = ctx_polls w" "fetch_calls w' = fetch_calls w"
    "http_calls w' = http_calls w" "stamps w' = stamps w" "sent w' = sent w"
  using assms by (auto simp: Reconnect_def Let_def split: if_splits)

lemma sendWithRetry_frame:
  assumes "sendWithRetry wr e msg w = (r, wr', w')"
  shows "ctx_polls w' = ctx_polls w" "fetch_calls w' = fetch_calls w"
    "http_calls w' = http_calls w" "stamps w' = stamps w"
    "r = None \<Longrightarrow> sent w' = sent w @ [msg]" "r \<noteq> None \<Longrightarrow> sent w' = sent w"
proof -
  obtain r1 w1 where a: "Write wr e msg w = (r1, w1)" by force
  note fa = Write_frame[OF a]
  have "ctx_polls w' = ctx_polls w \<and> fetch_calls w' = fetch_calls w \<and>
        http_calls w' = http_calls w \<and> stamps w' = stamps w \<and>
        (r = None \<longrightarrow> sent w' = sent w @ [msg]) \<and> (r \<noteq> None \<longrightarrow> sent w' = sent w)"
  proof (cases r1)
    case None
    with assms a have "r = None" "w' = w1" by (simp_all add: sendWithRetry_def)
    with fa None show ?thesis by simp
  next
    case (Some err)
    obtain r2 wr2 w2 where b: "Reconnect wr e w1 = (r2, wr2, w2)" by (metis prod_cases3)
    note fb = Reconnect_frame[OF b]
    show ?thesis
    proof (cases r2)
      case (Some rerr)
      with assms a \<open>r1 = Some err\<close> b have "r = Some (ErrReconnectionFailed rerr)" "w' = w2"
        by (simp_all add: sendWithRetry_def)
      with fa fb \<open>r1 = Some err\<close> show ?thesis by simp
    next
      case None
      obtain r3 w3 where c: "Write wr2 e msg w2 = (r3, w3)" by force
      note fc = Write_frame[OF c]
      show ?thesis
      proof (cases r3)
        case (Some err2)
        with assms a \<open>r1 = Some err\<close> b \<open>r2 = None\<close> c
        have "r = Some (ErrWriteAfterReconnect err2)" "w' = w3"
          by (simp_all add: sendWithRetry_def)
        with fa fb fc \<open>r1 = Some err\<close> Some show ?thesis by simp
      next
        case n3: None
        with assms a \<open>r1 = Some err\<close> b \<open>r2 = None\<close> c
        have "r = None" "w' = w3"
          by (simp_all add: sendWithRetry_def)
        with fa fb fc \<open>r1 = Some err\<close> n3 show ?thesis by simp
      qed
    qed
  qed
  then show "ctx_polls w' = ctx_polls w" "fetch_calls w' = fetch_calls w"
    "http_calls w' = http_calls w" "stamps w' = stamps w"
    "r = None \<Longrightarrow> sent w' = sent w @ [msg]" "r \<noteq> None \<Longrightarrow> sent w' = sent w"
    by simp_all
qed

lemma syslogLine_Panicked: "syslogLine c f e fm k = Panicked \<Longrightarrow> MaxMsgSize c < 0"
  by (auto simp: syslogLine_def Let_def split: if_splits)

text \<open>
  The loop of \<open>forwardEvents\<close>: it touches neither the cancellation context nor the
  API; when it returns without error every record was delivered; when it returns an
  error after \<open>m - n\<close> records, exactly these were delivered, one more was rendered
  and the records after that one were not touched; it panics only on a negative
  \<open>MaxMsgSize\<close>.
\<close>

lemma forwardLoop_frame:
  "forwardLoop c f e events n wr w = (r, wr', w') \<Longrightarrow>
   ctx_polls w' = ctx_polls w \<and> fetch_calls w' = fetch_calls w \<and>
   http_calls w' = http_calls w \<and> length (sent w) \<le> length (sent w') \<and>
   (r = Panicked \<longrightarrow> MaxMsgSize c < 0) \<and>
   (\<forall>m. r = Returned (m, None) \<longrightarrow>
        m = n + int (length events) \<and>
        length (sent w') = length (sent w) + length events \<and>
        stamps w' = stamps w + length events) \<and>
   (\<forall>m err. r = Returned (m, Some err) \<longrightarrow>
        n \<le> m \<and> m < n + int (length events) \<and>
        length (sent w') = length (sent w) + nat (m - n) \<and>
        stamps w' = stamps w + nat (m - n) + 1)"
proof (induction events arbitrary: n wr w)
  case Nil
  then show ?case by auto
next
  case (Cons fm rest)
  let ?w0 = "w\<lparr>stamps := Suc (stamps w)\<rparr>"
  show ?case
  proof (cases "syslogLine c f e fm (stamps w)")
    case Panicked
    with Cons.prems have "r = Panicked" "w' = ?w0" by simp_all
    with syslogLine_Panicked[OF Panicked] show ?thesis by simp
  next
    case (Returned msg)
    obtain r1 wr1 w1 where s: "sendWithRetry wr e msg ?w0 = (r1, wr1, w1)"
      by (metis prod_cases3)
    note fs = sendWithRetry_frame[OF s]
    show ?thesis
    proof (cases r1)
      case (Some err)
      with Cons.prems Returned s have "r = Returned (n, Some err)" "w' = w1" by simp_all
      with fs Some show ?thesis by simp
    next
      case None
      with Cons.prems Returned s have "forwardLoop c f e rest (n + 1) wr1 w1 = (r, wr', w')"
        by simp
      note ih = Cons.IH[OF this]
      from fs None have w1: "ctx_polls w1 = ctx_polls w" "fetch_calls w1 = fetch_calls w"
          "http_calls w1 = http_calls w" "stamps w1 = Suc (stamps w)"
          "length (sent w1) = Suc (length (sent w))"
        by simp_all
      have "\<forall>m err. r = Returned (m, Some err) \<longrightarrow>
              n \<le> m \<and> m < n + int (length (fm # rest)) \<and>
              length (sent w') = length (sent w) + nat (m - n) \<and>
              stamps w' = stamps w + nat (m - n) + 1"
      proof (intro allI impI)
        fix m err assume "r = Returned (m, Some err)"
        with ih w1 have "n + 1 \<le> m" "m < n + 1 + int (length rest)"
            "length (sent w') = Suc (length (sent w)) + nat (m - (n + 1))"
            "stamps w' = Suc (stamps w) + nat (m - (n + 1)) + 1"
          by simp_all
        moreover from \<open>n + 1 \<le> m\<close> have "nat (m - n) = Suc (nat (m - (n + 1)))" by linarith
        ultimately show "n \<le> m \<and> m < n + int (length (fm # rest)) \<and>
              length (sent w') = length (sent w) + nat (m - n) \<and>
              stamps w' = stamps w + nat (m - n) + 1"
          by simp
      qed
      with ih w1 show ?thesis by auto
    qed
  qed
qed

lemma forwardEvents_frame:
  assumes "forwardEvents p e events w = (r, p', w')"
  shows "cfg p' = cfg p" "stats p' = stats p" "markerManager p' = markerManager p"
    "ctx_polls w' = ctx_polls w" "fetch_calls w' = fetch_calls w" "http_calls w' = http_calls w"
    "length (sent w) \<le> length (sent w')"
    "r = Panicked \<Longrightarrow> MaxMsgSize (cfg p) < 0"
    "r = Returned (m, None) \<Longrightarrow>
       m = int (length events) \<and> length (sent w') = length (sent w) + length events"
    "r = Returned (m, Some err) \<Longrightarrow>
       0 \<le> m \<and> m < int (length events) \<and> length (sent w') = length (sent w) + nat m \<and>
       stamps w' = stamps w + nat m + 1"
proof -
  obtain wr' where fl: "forwardLoop (cfg p) (cefFormatter p) e events 0 (syslogWriter p) w = (r, wr', w')"
    and p': "p' = p\<lparr>syslogWriter := wr'\<rparr>"
    using assms by (auto simp: forwardEvents_def split: prod.splits)
  note f = forwardLoop_frame[OF fl]
  from p' show "cfg p' = cfg p" "stats p' = stats p" "markerManager p' = markerManager p"
    by simp_all
  from f show "ctx_polls w' = ctx_polls w" "fetch_calls w' = fetch_calls w"
    "http_calls w' = http_calls w" "length (sent w) \<le> length (sent w')"
    by simp_all
  from f show "r = Panicked \<Longrightarrow> MaxMsgSize (cfg p) < 0" by simp
  from f show "r = Returned (m, None) \<Longrightarrow>
       m = int (length events) \<and> length (sent w') = length (sent w) + length events"
    by simp
  from f show "r = Returned (m, Some err) \<Longrightarrow>
       0 \<le> m \<and> m < int (length events) \<and> length (sent w') = length (sent w) + nat m \<and>
       stamps w' = stamps w + nat m + 1"
    by simp
qed

lemma retryLoop_frame:
  "retryLoop e mk maxAttempts attempt lastErr w = (r, w') \<Longrightarrow>
   ctx_polls w' = ctx_polls w \<and> fetch_calls w' = fetch_calls w \<and> sent w' = sent w"
proof (induction e mk maxAttempts attempt lastErr w rule: retryLoop.induct)
  case (1 e mk maxAttempts attempt lastErr w)
  show ?case
  proof (cases "attempt < maxAttempts")
    case False
    with "1.prems" show ?thesis by (simp add: retryLoop.simps[of e mk maxAttempts attempt])
  next
    case True
    show ?thesis
    proof (cases "FetchEventsPage (http_resp e (http_calls w) mk)")
      case (Inr page)
      with True "1.prems" show ?thesis
        by (auto simp: retryLoop.simps[of e mk maxAttempts attempt] Let_def)
    next
      case (Inl err)
      with True "1.prems" have "retryLoop e mk maxAttempts (attempt + 1) (Some err)
            (w\<lparr>http_calls := Suc (http_calls w)\<rparr>) = (r, w')"
        by (simp add: retryLoop.simps[of e mk maxAttempts attempt] Let_def)
      from "1.IH"[OF True refl Inl this] show ?thesis by simp
    qed
  qed
qed

lemma FetchWithRetry_frame:
  assumes "FetchWithRetry e mk maxAttempts w = (r, w')"
  shows "ctx_polls w' = ctx_polls w" "fetch_calls w' = Suc (fetch_calls w)" "sent w' = sent w"
  using assms unfolding FetchWithRetry_def by (auto dest!: retryLoop_frame)

lemma Update_frame:
  assumes "Update m e mk w = (r, m', w')"
  shows "ctx_polls w' = ctx_polls w" "fetch_calls w' = fetch_calls w"
    "http_calls w' = http_calls w" "sent w' = sent w"
  using assms
  by (auto simp: Update_def Save_def Let_def split: if_splits fs_result.splits)

lemma advance_frame:
  assumes "advance e page l p w = (st, p', w')"
  shows "cfg p' = cfg p" "stats p' = stats p" "syslogWriter p' = syslogWriter p"
    "ctx_polls w' = ctx_polls w" "fetch_calls w' = fetch_calls w"
    "http_calls w' = http_calls w" "sent w' = sent w"
    "st \<noteq> Panics" "\<And>err. st \<noteq> ReturnErr err"
    "\<And>l'. st = Next l' \<or> st = Break l' \<Longrightarrow>
        paginationCount l' = paginationCount l \<and>
        totalEventsProcessed l' = totalEventsProcessed l"
    "HasMore page \<Longrightarrow> \<exists>l'. st = Next l'"
    "\<exists>l'. (st = Next l' \<or> st = Break l') \<and> paginationCount l' = paginationCount l \<and>
          totalEventsProcessed l' = totalEventsProcessed l"
proof -
  have "cfg p' = cfg p \<and> stats p' = stats p \<and> syslogWriter p' = syslogWriter p \<and>
        ctx_polls w' = ctx_polls w \<and> fetch_calls w' = fetch_calls w \<and>
        http_calls w' = http_calls w \<and> sent w' = sent w \<and>
        (\<exists>l'. (st = Next l' \<or> st = Break l') \<and> (HasMore page \<longrightarrow> st = Next l') \<and>
              paginationCount l' = paginationCount l \<and>
              totalEventsProcessed l' = totalEventsProcessed l)"
  proof (cases "NewMarker page \<noteq> [] \<and> NewMarker page \<noteq> currentMarker l")
    case False
    with assms show ?thesis by (auto simp: advance_def split: if_splits)
  next
    case True
    obtain r m1 w1 where u: "Update (markerManager p) e (NewMarker page) w = (r, m1, w1)"
      by (metis prod_cases3)
    note fu = Update_frame[OF u]
    show ?thesis
    proof (cases r)
      case None
      with assms True u fu show ?thesis
        by (auto simp: advance_def Let_def split: if_splits)
    next
      case (Some err)
      with assms True u fu show ?thesis
        by (auto simp: advance_def Let_def split: if_splits)
    qed
  qed
  then show "cfg p' = cfg p" "stats p' = stats p" "syslogWriter p' = syslogWriter p"
    "ctx_polls w' = ctx_polls w" "fetch_calls w' = fetch_calls w"
    "http_calls w' = http_calls w" "sent w' = sent w"
    "st \<noteq> Panics" "\<And>err. st \<noteq> ReturnErr err"
    "\<And>l'. st = Next l' \<or> st = Break l' \<Longrightarrow>
        paginationCount l' = paginationCount l \<and>
        totalEventsProcessed l' = totalEventsProcessed l"
    "HasMore page \<Longrightarrow> \<exists>l'. st = Next l'"
    "\<exists>l'. (st = Next l' \<or> st = Break l') \<and> paginationCount l' = paginationCount l \<and>
          totalEventsProcessed l' = totalEventsProcessed l"
    by auto
qed

text \<open>
  One iteration of the loop of \<open>ProcessEvents\<close>: the configuration is untouched; the
  only error it returns is the cancellation, observed at its start, before anything else
  happened; it panics only on a negative \<open>MaxMsgSize\<close>; it calls \<open>FetchWithRetry\<close>
  at most once, and exactly once when the loop goes on, in which case
  \<open>paginationCount\<close> grew by one; the events it adds to \<open>TotalEventsForwarded\<close> were
  delivered, and they are the events it adds to \<open>totalEventsProcessed\<close>.
\<close>

lemma iteration_facts:
  assumes it: "iteration e l p w = (st, p', w')"
  shows "cfg p' = cfg p \<and>
    (\<forall>err. st = ReturnErr err \<longrightarrow>
        err = ErrContextCancelled \<and> ctx_done e (ctx_polls w) \<and> p' = p \<and>
        w' = w\<lparr>ctx_polls := Suc (ctx_polls w)\<rparr>) \<and>
    (st = Panics \<longrightarrow> MaxMsgSize (cfg p) < 0) \<and>
    (\<forall>l'. st = Next l' \<longrightarrow>
        paginationCount l' = paginationCount l + 1 \<and> fetch_calls w' = Suc (fetch_calls w)) \<and>
    fetch_calls w \<le> fetch_calls w' \<and> fetch_calls w' \<le> Suc (fetch_calls w) \<and>
    TotalEventsForwarded (stats p) \<le> TotalEventsForwarded (stats p') \<and>
    TotalEventsForwarded (stats p') - TotalEventsForwarded (stats p)
      \<le> int (length (sent w')) - int (length (sent w)) \<and>
    (\<forall>l'. st = Next l' \<or> st = Break l' \<longrightarrow>
        totalEventsProcessed l' - totalEventsProcessed l
          = TotalEventsForwarded (stats p') - TotalEventsForwarded (stats p))"
  using it
proof (cases rule: iteration_cases)
  case cancel
  then show ?thesis by simp
next
  case (fetch_fail err)
  from FetchWithRetry_frame[OF fetch_fail(2)] fetch_fail(3,4) show ?thesis by simp
next
  case (empty page w1)
  note f = FetchWithRetry_frame[OF empty(2)]
  note a = advance_frame[OF empty(4)]
  from a(12) obtain l1 where l1: "st = Next l1 \<or> st = Break l1"
      "paginationCount l1 = paginationCount l + 1"
      "totalEventsProcessed l1 = totalEventsProcessed l"
    by auto
  have w: "fetch_calls w' = Suc (fetch_calls w)" "sent w' = sent w" "stats p' = stats p"
      "cfg p' = cfg p"
    using f a(1,2,5,7) by simp_all
  from l1(1) show ?thesis
  proof
    assume "st = Next l1" with l1(2,3) w show ?thesis by simp
  next
    assume "st = Break l1" with l1(2,3) w show ?thesis by simp
  qed
next
  case (panic page w1)
  note f = FetchWithRetry_frame[OF panic(2)]
  note g = forwardEvents_frame[OF panic(4)]
  from g(8) have "MaxMsgSize (cfg p) < 0" by simp
  with f g(1,2,5,7) panic(5) show ?thesis by simp
next
  case (fwd_fail page w1 n err)
  note f = FetchWithRetry_frame[OF fwd_fail(2)]
  note g = forwardEvents_frame[OF fwd_fail(4)]
  from f g(1,2,5,7) fwd_fail(5) show ?thesis by simp
next
  case (fwd_ok page w1 n p2 w2)
  note f = FetchWithRetry_frame[OF fwd_ok(2)]
  note g = forwardEvents_frame[OF fwd_ok(4)]
  note a = advance_frame[OF fwd_ok(5)]
  from g(9)[of n] have n: "n = int (length (Events page))"
      "length (sent w2) = length (sent w1) + length (Events page)"
    by simp_all
  have st: "stats p' = (stats p)\<lparr>TotalEventsForwarded := TotalEventsForwarded (stats p) + n\<rparr>"
    using a(2) g(2) by (simp add: IncrementEventsForwarded_def)
  from a(12) obtain l1 where l1: "st = Next l1 \<or> st = Break l1"
      "paginationCount l1 = paginationCount l + 1"
      "totalEventsProcessed l1 = totalEventsProcessed l + n"
    by auto
  have w: "cfg p' = cfg p" "fetch_calls w' = Suc (fetch_calls w)"
      "int (length (sent w')) - int (length (sent w)) = n" "0 \<le> n"
      "TotalEventsForwarded (stats p') = TotalEventsForwarded (stats p) + n"
    using a(1,5,7) g(1,5) f(2,3) n st by simp_all
  from l1(1) show ?thesis
  proof
    assume "st = Next l1" with l1(2,3) w show ?thesis by simp
  next
    assume "st = Break l1" with l1(2,3) w show ?thesis by simp
  qed
qed

lemma paginate_facts:
  "paginate e l p w = (out, p', w') \<Longrightarrow>
   cfg p' = cfg p \<and>
   (\<forall>err. out = Failed err \<longrightarrow> err = ErrContextCancelled \<and> (\<exists>k. ctx_done e k)) \<and>
   (out = Panic \<longrightarrow> MaxMsgSize (cfg p) < 0) \<and>
   fetch_calls w \<le> fetch_calls w' \<and>
   int (fetch_calls w') \<le> int (fetch_calls w) + max 0 (MaxPagination (cfg p) - paginationCount l) \<and>
   TotalEventsForwarded (stats p) \<le> TotalEventsForwarded (stats p') \<and>
   TotalEventsForwarded (stats p') - TotalEventsForwarded (stats p)
     \<le> int (length (sent w')) - int (length (sent w)) \<and>
   (\<forall>l'. out = Completed l' \<longrightarrow>
       totalEventsProcessed l' - totalEventsProcessed l
         = TotalEventsForwarded (stats p') - TotalEventsForwarded (stats p))"
proof (induction e l p w rule: paginate.induct)
  case (1 e l p w)
  show ?case
  proof (cases "paginationCount l < MaxPagination (cfg p)")
    case False
    with "1.prems" have "out = Completed l" "p' = p" "w' = w"
      by (auto simp: paginate.simps[of e l p w])
    with False show ?thesis by simp
  next
    case True
    obtain st p1 w1 where it: "iteration e l p w = (st, p1, w1)"
      by (metis prod_cases3)
    note f = iteration_facts[OF it]
    show ?thesis
    proof (cases st)
      case (Next l1)
      with True it "1.prems" have run: "paginate e l1 p1 w1 = (out, p', w')"
        by (simp add: paginate.simps[of e l p w])
      from "1.IH"[OF True it[symmetric] _ _ run] Next
      have ih: "cfg p' = cfg p1"
        "\<forall>err. out = Failed err \<longrightarrow> err = ErrContextCancelled \<and> (\<exists>k. ctx_done e k)"
        "out = Panic \<longrightarrow> MaxMsgSize (cfg p1) < 0"
        "fetch_calls w1 \<le> fetch_calls w'"
        "int (fetch_calls w') \<le> int (fetch_calls w1) + max 0 (MaxPagination (cfg p1) - paginationCount l1)"
        "TotalEventsForwarded (stats p1) \<le> TotalEventsForwarded (stats p')"
        "TotalEventsForwarded (stats p') - TotalEventsForwarded (stats p1)
           \<le> int (length (sent w')) - int (length (sent w1))"
        "\<forall>l'. out = Completed l' \<longrightarrow>
           totalEventsProcessed l' - totalEventsProcessed l1
             = TotalEventsForwarded (stats p') - TotalEventsForwarded (stats p1)"
        by simp_all
      from f Next have s: "cfg p1 = cfg p" "paginationCount l1 = paginationCount l + 1"
        "fetch_calls w1 = Suc (fetch_calls w)"
        "TotalEventsForwarded (stats p) \<le> TotalEventsForwarded (stats p1)"
        "TotalEventsForwarded (stats p1) - TotalEventsForwarded (stats p)
           \<le> int (length (sent w1)) - int (length (sent w))"
        "totalEventsProcessed l1 - totalEventsProcessed l
           = TotalEventsForwarded (stats p1) - TotalEventsForwarded (stats p)"
        by simp_all
      have c1: "cfg p' = cfg p" using ih(1) s(1) by simp
      have c3: "out = Panic \<longrightarrow> MaxMsgSize (cfg p) < 0" using ih(3) s(1) by simp
      have c4: "fetch_calls w \<le> fetch_calls w'" using ih(4) s(3) by simp
      have c5: "int (fetch_calls w') \<le> int (fetch_calls w) + max 0 (MaxPagination (cfg p) - paginationCount l)"
        using ih(5) s(1,2,3) True by simp
      have c6: "TotalEventsForwarded (stats p) \<le> TotalEventsForwarded (stats p')"
        using ih(6) s(4) by simp
      have c7: "TotalEventsForwarded (stats p') - TotalEventsForwarded (stats p)
                  \<le> int (length (sent w')) - int (length (sent w))"
        using ih(7) s(5) by linarith
      have c8: "\<forall>l'. out = Completed l' \<longrightarrow>
           totalEventsProcessed l' - totalEventsProcessed l
             = TotalEventsForwarded (stats p') - TotalEventsForwarded (stats p)"
      proof (intro allI impI)
        fix l' assume "out = Completed l'"
        with ih(8) have "totalEventsProcessed l' - totalEventsProcessed l1
             = TotalEventsForwarded (stats p') - TotalEventsForwarded (stats p1)" by simp
        with s(6) show "totalEventsProcessed l' - totalEventsProcessed l
             = TotalEventsForwarded (stats p') - TotalEventsForwarded (stats p)" by linarith
      qed
      from c1 ih(2) c3 c4 c5 c6 c7 c8 show ?thesis by blast
    next
      case (Break l1)
      with True it "1.prems" have "out = Completed l1" "p' = p1" "w' = w1"
        by (simp_all add: paginate.simps[of e l p w])
      with f Break True show ?thesis by auto
    next
      case (ReturnErr err)
      with True it "1.prems" have "out = Failed err" "p' = p1" "w' = w1"
        by (simp_all add: paginate.simps[of e l p w])
      with f ReturnErr True show ?thesis by auto
    next
      case Panics
      with True it "1.prems" have "out = Panic" "p' = p1" "w' = w1"
        by (simp_all add: paginate.simps[of e l p w])
      with f Panics True show ?thesis by auto
    qed
  qed
qed

lemma ProcessEvents_facts:
  assumes "ProcessEvents p e w = (out, p', w')"
  shows "cfg p' = cfg p"
    "out = Failed err \<Longrightarrow> err = ErrContextCancelled \<and> (\<exists>k. ctx_done e k)"
    "out = Panic \<Longrightarrow> MaxMsgSize (cfg p) < 0"
    "fetch_calls w \<le> fetch_calls w'"
    "int (fetch_calls w') - int (fetch_calls w) \<le> max 0 (MaxPagination (cfg p))"
    "TotalEventsForwarded (stats p) \<le> TotalEventsForwarded (stats p')"
    "TotalEventsForwarded (stats p') - TotalEventsForwarded (stats p)
       \<le> int (length (sent w')) - int (length (sent w))"
    "out = Completed l' \<Longrightarrow>
       totalEventsProcessed l' = TotalEventsForwarded (stats p') - TotalEventsForwarded (stats p)"
proof -
  let ?l0 = "\<lparr>totalEventsProcessed = 0, paginationCount = 0,
               currentMarker = Get (markerManager p), markerUpdates = 0, numErrors = 0\<rparr>"
  let ?p0 = "p\<lparr>stats := IncrementAPIRequests (stats p)\<rparr>"
  from assms have run: "paginate e ?l0 ?p0 w = (out, p', w')"
    by (simp add: ProcessEvents_def Let_def)
  note f = paginate_facts[OF run]
  have p0: "cfg ?p0 = cfg p" "TotalEventsForwarded (stats ?p0) = TotalEventsForwarded (stats p)"
    by (simp_all add: IncrementAPIRequests_def)
  from f p0 show "cfg p' = cfg p" by simp
  from f show "out = Failed err \<Longrightarrow> err = ErrContextCancelled \<and> (\<exists>k. ctx_done e k)" by simp
  from f p0 show "out = Panic \<Longrightarrow> MaxMsgSize (cfg p) < 0" by simp
  from f show "fetch_calls w \<le> fetch_calls w'" by simp
  from f p0 show "int (fetch_calls w') - int (fetch_calls w) \<le> max 0 (MaxPagination (cfg p))"
    by simp
  from f p0 show "TotalEventsForwarded (stats p) \<le> TotalEventsForwarded (stats p')" by simp
  from f p0 show "TotalEventsForwarded (stats p') - TotalEventsForwarded (stats p)
       \<le> int (length (sent w')) - int (length (sent w))" by simp
  from f p0 show "out = Completed l' \<Longrightarrow>
       totalEventsProcessed l' = TotalEventsForwarded (stats p') - TotalEventsForwarded (stats p)"
    by simp
qed

section \<open>Cycle orchestrator: the pagination ceiling\<close>

lemma FetchWithRetry_first_try:
  assumes "FetchEventsPage (http_resp e (http_calls w) mk) = Inr page" and "1 \<le> maxAttempts"
  shows "FetchWithRetry e mk maxAttempts w =
           (Inr page, w\<lparr>fetch_calls := Suc (fetch_calls w), http_calls := Suc (http_calls w),
                         pages := pages w @ [page]\<rparr>)"
  using assms
  by (simp add: FetchWithRetry_def
        retryLoop.simps[of e mk maxAttempts 0 None "w\<lparr>fetch_calls := Suc (fetch_calls w)\<rparr>"]
        Let_def)

lemma iteration_always_more:
  assumes it: "iteration e l p w = (st, p', w')"
    and more: "\<forall>k mk. \<exists>page. FetchEventsPage (http_resp e k mk) = Inr page \<and> HasMore page"
    and nc: "\<not> ctx_done e (ctx_polls w)"
    and cf: "1 \<le> RetryAttempts (cfg p)" "0 \<le> MaxMsgSize (cfg p)"
  shows "\<exists>l'. st = Next l' \<and> http_calls w' = Suc (http_calls w)"
proof -
  let ?w0 = "w\<lparr>ctx_polls := Suc (ctx_polls w)\<rparr>"
  from more obtain pg where pg: "FetchEventsPage (http_resp e (http_calls ?w0) (currentMarker l)) = Inr pg"
      "HasMore pg"
    by blast
  note fw = FetchWithRetry_first_try[OF pg(1) cf(1)]
  from it show ?thesis
  proof (cases rule: iteration_cases)
    case cancel
    with nc show ?thesis by simp
  next
    case (fetch_fail err)
    with fw show ?thesis by simp
  next
    case (empty page w1)
    with fw have "page = pg" "http_calls w1 = Suc (http_calls w)" by auto
    with advance_frame(6,11)[OF empty(4)] pg(2) show ?thesis by simp
  next
    case (panic page w1)
    from forwardEvents_frame(8)[OF panic(4)] cf(2) show ?thesis by simp
  next
    case (fwd_fail page w1 n err)
    with fw have "http_calls w1 = Suc (http_calls w)" by auto
    with forwardEvents_frame(6)[OF fwd_fail(4)] fwd_fail(5) show ?thesis by simp
  next
    case (fwd_ok page w1 n p2 w2)
    with fw have "page = pg" "http_calls w1 = Suc (http_calls w)" by auto
    with forwardEvents_frame(6)[OF fwd_ok(4)] advance_frame(6,11)[OF fwd_ok(5)] pg(2)
    show ?thesis by simp
  qed
qed

lemma paginate_always_more:
  "paginate e l p w = (out, p', w') \<Longrightarrow>
   \<forall>k mk. \<exists>page. FetchEventsPage (http_resp e k mk) = Inr page \<and> HasMore page \<Longrightarrow>
   \<forall>k. \<not> ctx_done e k \<Longrightarrow>
         1 \<le> RetryAttempts (cfg p) \<Longrightarrow> 0 \<le> MaxMsgSize (cfg p) \<Longrightarrow>
         (\<exists>l'. out = Completed l' \<and>
               paginationCount l' = max (paginationCount l) (MaxPagination (cfg p))) \<and>
         int (fetch_calls w') = int (fetch_calls w) + max 0 (MaxPagination (cfg p) - paginationCount l) \<and>
         int (http_calls w') = int (http_calls w) + max 0 (MaxPagination (cfg p) - paginationCount l)"
proof (induction e l p w rule: paginate.induct)
  case (1 e l p w)
  show ?case
  proof (cases "paginationCount l < MaxPagination (cfg p)")
    case False
    with "1.prems"(1) have "out = Completed l" "p' = p" "w' = w"
      by (auto simp: paginate.simps[of e l p w])
    with False show ?thesis by simp
  next
    case True
    obtain st p1 w1 where it: "iteration e l p w = (st, p1, w1)"
      by (metis prod_cases3)
    from iteration_always_more[OF it "1.prems"(2) _ "1.prems"(4,5)] "1.prems"(3)
    obtain l1 where l1: "st = Next l1" "http_calls w1 = Suc (http_calls w)"
      by auto
    from iteration_facts[OF it] l1(1)
    have s: "cfg p1 = cfg p" "paginationCount l1 = paginationCount l + 1"
        "fetch_calls w1 = Suc (fetch_calls w)"
      by simp_all
    from True it l1(1) "1.prems"(1) have run: "paginate e l1 p1 w1 = (out, p', w')"
      by (simp add: paginate.simps[of e l p w])
    from "1.IH"[OF True it[symmetric] _ _ run] l1(1) s(1) "1.prems"(2,3,4,5)
    have ih: "\<exists>l'. out = Completed l' \<and>
               paginationCount l' = max (paginationCount l1) (MaxPagination (cfg p1))"
        "int (fetch_calls w') = int (fetch_calls w1) + max 0 (MaxPagination (cfg p1) - paginationCount l1)"
        "int (http_calls w') = int (http_calls w1) + max 0 (MaxPagination (cfg p1) - paginationCount l1)"
      by simp_all
    from ih(1) s(1,2) True have a: "\<exists>l'. out = Completed l' \<and>
               paginationCount l' = max (paginationCount l) (MaxPagination (cfg p))"
      by (auto simp: max_def)
    from ih(2) s True have b: "int (fetch_calls w') = int (fetch_calls w)
          + max 0 (MaxPagination (cfg p) - paginationCount l)"
      by simp
    from ih(3) s(1,2) l1(2) True have c: "int (http_calls w') = int (http_calls w)
          + max 0 (MaxPagination (cfg p) - paginationCount l)"
      by simp
    from a b c show ?thesis by blast
  qed
qed

lemma retryLoop_http:
  "retryLoop e mk maxAttempts attempt lastErr w = (r, w') \<Longrightarrow>
   http_calls w \<le> http_calls w' \<and>
   int (http_calls w') - int (http_calls w) \<le> max 0 (maxAttempts - attempt)"
proof (induction e mk maxAttempts attempt lastErr w rule: retryLoop.induct)
  case (1 e mk maxAttempts attempt lastErr w)
  show ?case
  proof (cases "attempt < maxAttempts")
    case False
    with "1.prems" show ?thesis by (simp add: retryLoop.simps[of e mk maxAttempts attempt])
  next
    case True
    show ?thesis
    proof (cases "FetchEventsPage (http_resp e (http_calls w) mk)")
      case (Inr page)
      with True "1.prems" show ?thesis
        by (auto simp: retryLoop.simps[of e mk maxAttempts attempt] Let_def)
    next
      case (Inl err)
      with True "1.prems" have "retryLoop e mk maxAttempts (attempt + 1) (Some err)
            (w\<lparr>http_calls := Suc (http_calls w)\<rparr>) = (r, w')"
        by (simp add: retryLoop.simps[of e mk maxAttempts attempt] Let_def)
      from "1.IH"[OF True refl Inl this] True show ?thesis by simp
    qed
  qed
qed

lemma FetchWithRetry_http:
  assumes "FetchWithRetry e mk maxAttempts w = (r, w')"
  shows "http_calls w \<le> http_calls w'"
    "int (http_calls w') - int (http_calls w) \<le> max 0 maxAttempts"
    "length (pages w) \<le> length (pages w')" "length (pages w') \<le> Suc (length (pages w))"
proof -
  from assms have run: "retryLoop e mk maxAttempts 0 None (w\<lparr>fetch_calls := Suc (fetch_calls w)\<rparr>) = (r, w')"
    by (simp add: FetchWithRetry_def)
  from retryLoop_http[OF run] show "http_calls w \<le> http_calls w'"
    "int (http_calls w') - int (http_calls w) \<le> max 0 maxAttempts"
    by simp_all
  from retryLoop_effect[OF run] show "length (pages w) \<le> length (pages w')"
    "length (pages w') \<le> Suc (length (pages w))"
    by (cases r; simp)+
qed

lemma iteration_http:
  assumes "iteration e l p w = (st, p', w')"
  shows "http_calls w \<le> http_calls w' \<and>
    int (http_calls w') - int (http_calls w) \<le> max 0 (RetryAttempts (cfg p)) \<and>
    length (pages w) \<le> length (pages w') \<and> length (pages w') \<le> Suc (length (pages w))"
  using assms
proof (cases rule: iteration_cases)
  case cancel
  then show ?thesis by simp
next
  case (fetch_fail err)
  from FetchWithRetry_http[OF fetch_fail(2)] show ?thesis by simp
next
  case (empty page w1)
  from FetchWithRetry_http[OF empty(2)] advance_frame(6)[OF empty(4)] advance_effect[OF empty(4)]
  show ?thesis by simp
next
  case (panic page w1)
  from FetchWithRetry_http[OF panic(2)] forwardEvents_frame(6)[OF panic(4)]
    forwardEvents_effect[OF panic(4)]
  show ?thesis by simp
next
  case (fwd_fail page w1 n err)
  from FetchWithRetry_http[OF fwd_fail(2)] forwardEvents_frame(6)[OF fwd_fail(4)]
    forwardEvents_effect[OF fwd_fail(4)]
  show ?thesis by simp
next
  case (fwd_ok page w1 n p2 w2)
  from FetchWithRetry_http[OF fwd_ok(2)] forwardEvents_frame(6)[OF fwd_ok(4)]
    forwardEvents_effect[OF fwd_ok(4)] advance_frame(6)[OF fwd_ok(5)] advance_effect[OF fwd_ok(5)]
  show ?thesis by simp
qed

lemma paginate_http:
  "paginate e l p w = (out, p', w') \<Longrightarrow>
   http_calls w \<le> http_calls w' \<and>
   int (http_calls w') - int (http_calls w)
     \<le> max 0 (MaxPagination (cfg p) - paginationCount l) * max 0 (RetryAttempts (cfg p)) \<and>
   length (pages w) \<le> length (pages w') \<and>
   int (length (pages w')) - int (length (pages w))
     \<le> max 0 (MaxPagination (cfg p) - paginationCount l)"
proof (induction e l p w rule: paginate.induct)
  case (1 e l p w)
  let ?R = "max 0 (RetryAttempts (cfg p))"
  show ?case
  proof (cases "paginationCount l < MaxPagination (cfg p)")
    case False
    with "1.prems" have "w' = w" by (auto simp: paginate.simps[of e l p w])
    then show ?thesis by simp
  next
    case True
    then have pos: "max 0 (MaxPagination (cfg p) - paginationCount l)
        = MaxPagination (cfg p) - paginationCount l" by simp
    have one: "?R \<le> (MaxPagination (cfg p) - paginationCount l) * ?R"
      using True by (simp add: mult_le_cancel_right1)
    obtain st p1 w1 where it: "iteration e l p w = (st, p1, w1)"
      by (metis prod_cases3)
    note h = iteration_http[OF it]
    have stop: ?thesis if "w' = w1"
      using h that pos one True by simp linarith
    show ?thesis
    proof (cases st)
      case (Next l1)
      with True it "1.prems" have run: "paginate e l1 p1 w1 = (out, p', w')"
        by (simp add: paginate.simps[of e l p w])
      from iteration_facts[OF it] Next
      have s: "cfg p1 = cfg p" "paginationCount l1 = paginationCount l + 1" by simp_all
      from "1.IH"[OF True it[symmetric] _ _ run] Next s
      have ih: "http_calls w1 \<le> http_calls w'"
        "int (http_calls w') - int (http_calls w1)
           \<le> max 0 (MaxPagination (cfg p) - paginationCount l - 1) * ?R"
        "length (pages w1) \<le> length (pages w')"
        "int (length (pages w')) - int (length (pages w1))
           \<le> max 0 (MaxPagination (cfg p) - paginationCount l - 1)"
        by (simp_all add: algebra_simps)
      from True have m: "max 0 (MaxPagination (cfg p) - paginationCount l - 1)
          = MaxPagination (cfg p) - paginationCount l - 1" by simp
      have "(MaxPagination (cfg p) - paginationCount l - 1) * ?R + ?R
          = (MaxPagination (cfg p) - paginationCount l) * ?R"
        by (simp add: algebra_simps)
      with ih(2) h m have "int (http_calls w') - int (http_calls w)
          \<le> (MaxPagination (cfg p) - paginationCount l) * ?R"
        by linarith
      with ih h m pos show ?thesis by simp
    next
      case (Break l1)
      with True it "1.prems" have "w' = w1" by (simp add: paginate.simps[of e l p w])
      then show ?thesis by (rule stop)
    next
      case (ReturnErr err)
      with True it "1.prems" have "w' = w1" by (simp add: paginate.simps[of e l p w])
      then show ?thesis by (rule stop)
    next
      case Panics
      with True it "1.prems" have "w' = w1" by (simp add: paginate.simps[of e l p w])
      then show ?thesis by (rule stop)
    qed
  qed
qed

lemma ProcessEvents_http:
  assumes "ProcessEvents p e w = (out, p', w')"
  shows "int (http_calls w') - int (http_calls w)
           \<le> max 0 (MaxPagination (cfg p)) * max 0 (RetryAttempts (cfg p))"
    "int (length (pages w')) - int (length (pages w)) \<le> max 0 (MaxPagination (cfg p))"
proof -
  from assms have "paginate e
      \<lparr>totalEventsProcessed = 0, paginationCount = 0, currentMarker = Get (markerManager p),
         markerUpdates = 0, numErrors = 0\<rparr>
      (p\<lparr>stats := IncrementAPIRequests (stats p)\<rparr>) w = (out, p', w')"
    by (simp add: ProcessEvents_def Let_def)
  from paginate_http[OF this]
  show "int (http_calls w') - int (http_calls w)
           \<le> max 0 (MaxPagination (cfg p)) * max 0 (RetryAttempts (cfg p))"
    "int (length (pages w')) - int (length (pages w)) \<le> max 0 (MaxPagination (cfg p))"
    by simp_all
qed

lemma FetchEventsPage_HasMore:
  "FetchEventsPage out = Inr page \<Longrightarrow> HasMore page = (NewMarker page \<noteq> [] \<and> Events page \<noteq> [])"
  by (auto simp: FetchEventsPage_def Let_def
           split: http_outcome.splits if_splits option.splits list.splits)

text \<open>
  C4. A cycle calls \<open>FetchWithRetry\<close> at most \<open>MaxPagination\<close> times (never, when
  \<open>MaxPagination\<close> is not positive) and so obtains at most that many pages, whatever
  the server, the collector and the file system do; since each call makes at most
  \<open>RetryAttempts\<close> round trips, the round trips are bounded by the product of the two.
  When the server always answers with a page that has a non-empty marker and at least
  one event, and the cycle is neither cancelled nor stopped by a panic (\<open>MaxMsgSize\<close>
  is not negative) and the retry budget allows one attempt, it fetches exactly
  \<open>MaxPagination\<close> pages in as many round trips and then completes.
  \<open>ProcessEvents\<close> is a total function, so the cycle ends in every case.
\<close>

theorem pagination_bounded:
  "(ProcessEvents p e w = (out, p', w') \<longrightarrow>
      fetch_calls w \<le> fetch_calls w' \<and>
      int (fetch_calls w') - int (fetch_calls w) \<le> max 0 (MaxPagination (cfg p)) \<and>
      int (length (pages w')) - int (length (pages w)) \<le> max 0 (MaxPagination (cfg p)) \<and>
      int (http_calls w') - int (http_calls w)
        \<le> max 0 (MaxPagination (cfg p)) * max 0 (RetryAttempts (cfg p))) \<and>
   (ProcessEvents p e w = (out, p', w') \<and>
    (\<forall>k mk. \<exists>page. FetchEventsPage (http_resp e k mk) = Inr page \<and>
                    NewMarker page \<noteq> [] \<and> Events page \<noteq> []) \<and>
    (\<forall>k. \<not> ctx_done e k) \<and>
    1 \<le> RetryAttempts (cfg p) \<and> 0 \<le> MaxMsgSize (cfg p) \<and> 0 \<le> MaxPagination (cfg p) \<longrightarrow>
      int (fetch_calls w') - int (fetch_calls w) = MaxPagination (cfg p) \<and>
      int (http_calls w') - int (http_calls w) = MaxPagination (cfg p) \<and>
      (\<exists>l. out = Completed l \<and> paginationCount l = MaxPagination (cfg p)))"
proof (rule conjI; rule impI)
  assume "ProcessEvents p e w = (out, p', w')"
  from ProcessEvents_facts(4,5)[OF this] ProcessEvents_http[OF this]
  show "fetch_calls w \<le> fetch_calls w' \<and>
      int (fetch_calls w') - int (fetch_calls w) \<le> max 0 (MaxPagination (cfg p)) \<and>
      int (length (pages w')) - int (length (pages w)) \<le> max 0 (MaxPagination (cfg p)) \<and>
      int (http_calls w') - int (http_calls w)
        \<le> max 0 (MaxPagination (cfg p)) * max 0 (RetryAttempts (cfg p))"
    by simp
next
  assume a: "ProcessEvents p e w = (out, p', w') \<and>
    (\<forall>k mk. \<exists>page. FetchEventsPage (http_resp e k mk) = Inr page \<and>
                    NewMarker page \<noteq> [] \<and> Events page \<noteq> []) \<and>
    (\<forall>k. \<not> ctx_done e k) \<and>
    1 \<le> RetryAttempts (cfg p) \<and> 0 \<le> MaxMsgSize (cfg p) \<and> 0 \<le> MaxPagination (cfg p)"
  let ?l0 = "\<lparr>totalEventsProcessed = 0, paginationCount = 0,
               currentMarker = Get (markerManager p), markerUpdates = 0, numErrors = 0\<rparr>"
  let ?p0 = "p\<lparr>stats := IncrementAPIRequests (stats p)\<rparr>"
  from a have run: "paginate e ?l0 ?p0 w = (out, p', w')"
    by (simp add: ProcessEvents_def Let_def)
  have more: "\<forall>k mk. \<exists>page. FetchEventsPage (http_resp e k mk) = Inr page \<and> HasMore page"
  proof (intro allI)
    fix k mk
    from a obtain page where "FetchEventsPage (http_resp e k mk) = Inr page"
        "NewMarker page \<noteq> []" "Events page \<noteq> []"
      by blast
    with FetchEventsPage_HasMore[OF this(1)]
    show "\<exists>page. FetchEventsPage (http_resp e k mk) = Inr page \<and> HasMore page"
      by blast
  qed
  from a have c: "\<forall>k. \<not> ctx_done e k" "1 \<le> RetryAttempts (cfg ?p0)" "0 \<le> MaxMsgSize (cfg ?p0)"
      "0 \<le> MaxPagination (cfg p)"
    by simp_all
  from paginate_always_more[OF run more c(1,2,3)] c(4)
  show "int (fetch_calls w') - int (fetch_calls w) = MaxPagination (cfg p) \<and>
      int (http_calls w') - int (http_calls w) = MaxPagination (cfg p) \<and>
      (\<exists>l. out = Completed l \<and> paginationCount l = MaxPagination (cfg p))"
    by (simp add: max_def)
qed

theorem pagination_bounded_witness:
  "int (fetch_calls (snd (snd (ProcessEvents ex_proc_ten ex_env ex_world))))
     - int (fetch_calls ex_world) = 10 \<and>
   int (http_calls (snd (snd (ProcessEvents ex_proc_ten ex_env ex_world))))
     - int (http_calls ex_world) = 10 \<and>
   (\<exists>l. fst (ProcessEvents ex_proc_ten ex_env ex_world) = Completed l \<and> paginationCount l = 10) \<and>
   int (fetch_calls (snd (snd (ProcessEvents ex_proc_ten ex_env_api_down ex_world))))
     - int (fetch_calls ex_world) \<le> 10"
proof -
  have more: "\<forall>k mk. \<exists>page. FetchEventsPage (http_resp ex_env k mk) = Inr page \<and>
                    NewMarker page \<noteq> [] \<and> Events page \<noteq> []"
    by (simp add: ex_env_def ex_resp_def FetchEventsPage_def extractEvents_def Let_def)
  have nc: "\<forall>k. \<not> ctx_done ex_env k"
    by (simp add: ex_env_def)
  have c: "RetryAttempts (cfg ex_proc_ten) = 1" "MaxMsgSize (cfg ex_proc_ten) = 1024"
      "MaxPagination (cfg ex_proc_ten) = 10"
    by (simp_all add: ex_proc_ten_def ex_cfg_def)
  show ?thesis
    using pagination_bounded[where p = ex_proc_ten and e = ex_env and w = ex_world
        and out = "fst (ProcessEvents ex_proc_ten ex_env ex_world)"
        and p' = "fst (snd (ProcessEvents ex_proc_ten ex_env ex_world))"
        and w' = "snd (snd (ProcessEvents ex_proc_ten ex_env ex_world))"]
      pagination_bounded[where p = ex_proc_ten and e = ex_env_api_down and w = ex_world
        and out = "fst (ProcessEvents ex_proc_ten ex_env_api_down ex_world)"
        and p' = "fst (snd (ProcessEvents ex_proc_ten ex_env_api_down ex_world))"
        and w' = "snd (snd (ProcessEvents ex_proc_ten ex_env_api_down ex_world))"]
      more nc c
    by simp
qed

section \<open>Cycle orchestrator: what the scheduler is told\<close>

lemma iteration_failed_counter:
  assumes "iteration e l p w = (st, p', w')"
  shows "FailedAPIRequests (stats p') = FailedAPIRequests (stats p)"
  using assms
proof (cases rule: iteration_cases)
  case cancel
  then show ?thesis by simp
next
  case (fetch_fail err)
  then show ?thesis by simp
next
  case (empty page w1)
  from advance_frame(2)[OF empty(4)] show ?thesis by simp
next
  case (panic page w1)
  from forwardEvents_frame(2)[OF panic(4)] show ?thesis by simp
next
  case (fwd_fail page w1 n err)
  from forwardEvents_frame(2)[OF fwd_fail(4)] show ?thesis by simp
next
  case (fwd_ok page w1 n p2 w2)
  from forwardEvents_frame(2)[OF fwd_ok(4)] advance_frame(2)[OF fwd_ok(5)]
  show ?thesis by (simp add: IncrementEventsForwarded_def)
qed

lemma paginate_failed_counter:
  "paginate e l p w = (out, p', w') \<Longrightarrow>
   FailedAPIRequests (stats p') = FailedAPIRequests (stats p)"
proof (induction e l p w rule: paginate.induct)
  case (1 e l p w)
  show ?case
  proof (cases "paginationCount l < MaxPagination (cfg p)")
    case False
    with "1.prems" show ?thesis by (auto simp: paginate.simps[of e l p w])
  next
    case True
    obtain st p1 w1 where it: "iteration e l p w = (st, p1, w1)"
      by (metis prod_cases3)
    note f = iteration_failed_counter[OF it]
    show ?thesis
    proof (cases st)
      case (Next l1)
      with True it "1.prems" have run: "paginate e l1 p1 w1 = (out, p', w')"
        by (simp add: paginate.simps[of e l p w])
      from "1.IH"[OF True it[symmetric] _ _ run] Next f show ?thesis by simp
    next
      case (Break l1)
      with True it "1.prems" f show ?thesis by (auto simp: paginate.simps[of e l p w])
    next
      case (ReturnErr err)
      with True it "1.prems" f show ?thesis by (auto simp: paginate.simps[of e l p w])
    next
      case Panics
      with True it "1.prems" f show ?thesis by (auto simp: paginate.simps[of e l p w])
    qed
  qed
qed

lemma ProcessEvents_failed_counter:
  assumes "ProcessEvents p e w = (out, p', w')"
  shows "FailedAPIRequests (stats p') = FailedAPIRequests (stats p)"
proof -
  from assms have "paginate e
      \<lparr>totalEventsProcessed = 0, paginationCount = 0, currentMarker = Get (markerManager p),
         markerUpdates = 0, numErrors = 0\<rparr>
      (p\<lparr>stats := IncrementAPIRequests (stats p)\<rparr>) w = (out, p', w')"
    by (simp add: ProcessEvents_def Let_def)
  from paginate_failed_counter[OF this] show ?thesis
    by (simp add: IncrementAPIRequests_def)
qed

lemma ProcessWithRecovery_result:
  assumes "ProcessEvents p e w = (out, p', w')"
  shows "ProcessWithRecovery p e w =
           (case out of
              Completed l \<Rightarrow> (True, p', w')
            | _ \<Rightarrow> (False, p'\<lparr>stats := IncrementFailedAPIRequests (stats p')\<rparr>, w'))"
  using assms by (cases out) (simp_all add: ProcessWithRecovery_def)

text \<open>
  C10. \<open>ProcessWithRecovery\<close> reports failure exactly when \<open>ProcessEvents\<close> returned
  the cancellation error or panicked. \<open>ProcessEvents\<close> returns no other error, returns
  this one only if the context was cancelled, and panics only on a negative
  \<open>MaxMsgSize\<close>. Hence, with no cancellation and a \<open>MaxMsgSize\<close> that is not
  negative, the cycle completes and reports success whatever the API, the collector and
  the file system do; the failed-request counter stays as it was and the scheduler sets
  its delay to the base.
\<close>

theorem failure_only_on_cancel_or_panic:
  "(fst (ProcessWithRecovery p e w) = False \<longleftrightarrow>
      fst (ProcessEvents p e w) = Failed ErrContextCancelled \<or>
      fst (ProcessEvents p e w) = Panic) \<and>
   (fst (ProcessEvents p e w) = Failed err \<longrightarrow>
      err = ErrContextCancelled \<and> (\<exists>k. ctx_done e k)) \<and>
   (fst (ProcessEvents p e w) = Panic \<longrightarrow> MaxMsgSize (cfg p) < 0) \<and>
   ((\<forall>k. \<not> ctx_done e k) \<and> 0 \<le> MaxMsgSize (cfg p) \<longrightarrow>
      (\<exists>l. fst (ProcessEvents p e w) = Completed l) \<and>
      fst (ProcessWithRecovery p e w) = True \<and>
      FailedAPIRequests (stats (fst (snd (ProcessWithRecovery p e w))))
        = FailedAPIRequests (stats p) \<and>
      snd (onTick c (fst (ProcessWithRecovery p e w)) d) = 1 * Second)"
proof -
  obtain out p' w' where run: "ProcessEvents p e w = (out, p', w')"
    by (metis prod_cases3)
  note f = ProcessEvents_facts[OF run]
  note r = ProcessWithRecovery_result[OF run]
  have fail: "out = Failed x \<Longrightarrow> x = ErrContextCancelled \<and> (\<exists>k. ctx_done e k)" for x
    using f(2)[of x] by simp
  have a: "fst (ProcessWithRecovery p e w) = False \<longleftrightarrow>
      fst (ProcessEvents p e w) = Failed ErrContextCancelled \<or>
      fst (ProcessEvents p e w) = Panic"
  proof (cases out)
    case Panic
    with r run show ?thesis by simp
  next
    case (Failed x)
    with fail[of x] r run show ?thesis by simp
  next
    case (Completed l)
    with r run show ?thesis by simp
  qed
  have b: "fst (ProcessEvents p e w) = Failed err \<longrightarrow>
      err = ErrContextCancelled \<and> (\<exists>k. ctx_done e k)"
    using fail[of err] run by simp
  have c: "fst (ProcessEvents p e w) = Panic \<longrightarrow> MaxMsgSize (cfg p) < 0"
    using f(3) run by simp
  have d: "(\<exists>l. fst (ProcessEvents p e w) = Completed l) \<and>
      fst (ProcessWithRecovery p e w) = True \<and>
      FailedAPIRequests (stats (fst (snd (ProcessWithRecovery p e w))))
        = FailedAPIRequests (stats p) \<and>
      snd (onTick c (fst (ProcessWithRecovery p e w)) d) = 1 * Second"
    if h: "(\<forall>k. \<not> ctx_done e k) \<and> 0 \<le> MaxMsgSize (cfg p)"
  proof (cases out)
    case Panic
    with f(3) h show ?thesis by simp
  next
    case (Failed x)
    with fail[of x] h show ?thesis by simp
  next
    case (Completed l)
    with r run ProcessEvents_failed_counter[OF run] show ?thesis
      by (simp add: onTick_def)
  qed
  from a b c d show ?thesis by blast
qed

theorem failure_only_on_cancel_or_panic_witness:
  "fst (ProcessWithRecovery ex_proc ex_env_api_down ex_world) = True \<and>
   FailedAPIRequests (stats (fst (snd (ProcessWithRecovery ex_proc ex_env_api_down ex_world)))) = 0 \<and>
   fst (ProcessWithRecovery ex_proc ex_env_down ex_world) = True \<and>
   FailedAPIRequests (stats (fst (snd (ProcessWithRecovery ex_proc ex_env_down ex_world)))) = 0 \<and>
   length (sent (snd (snd (ProcessWithRecovery ex_proc ex_env_down ex_world)))) = 0 \<and>
   http_calls (snd (snd (ProcessWithRecovery ex_proc ex_env_api_down ex_world))) = 1 \<and>
   fst (ProcessEvents ex_proc ex_env_cancel ex_world) = Failed ErrContextCancelled \<and>
   fst (ProcessWithRecovery ex_proc ex_env_cancel ex_world) = False \<and>
   fst (ProcessEvents (ex_proc\<lparr>cfg := ex_cfg\<lparr>MaxMsgSize := - 1\<rparr>\<rparr>) ex_env ex_world) = Panic \<and>
   fst (ProcessWithRecovery (ex_proc\<lparr>cfg := ex_cfg\<lparr>MaxMsgSize := - 1\<rparr>\<rparr>) ex_env ex_world) = False"
proof -
  have nc: "\<forall>k. \<not> ctx_done ex_env_api_down k" "\<forall>k. \<not> ctx_done ex_env_down k"
    by (simp_all add: ex_env_api_down_def ex_env_down_def ex_env_def)
  have c: "0 \<le> MaxMsgSize (cfg ex_proc)" "FailedAPIRequests (stats ex_proc) = 0"
    by (simp_all add: ex_proc_def ex_cfg_def NewStats_def)
  have ev: "length (sent (snd (snd (ProcessWithRecovery ex_proc ex_env_down ex_world)))) = 0"
      "http_calls (snd (snd (ProcessWithRecovery ex_proc ex_env_api_down ex_world))) = 1"
      "fst (ProcessEvents ex_proc ex_env_cancel ex_world) = Failed ErrContextCancelled"
      "fst (ProcessEvents (ex_proc\<lparr>cfg := ex_cfg\<lparr>MaxMsgSize := - 1\<rparr>\<rparr>) ex_env ex_world) = Panic"
    by code_simp+
  show ?thesis
    using failure_only_on_cancel_or_panic[where p = ex_proc and e = ex_env_api_down
        and w = ex_world and c = ex_cfg and d = Second]
      failure_only_on_cancel_or_panic[where p = ex_proc and e = ex_env_down
        and w = ex_world and c = ex_cfg and d = Second]
      failure_only_on_cancel_or_panic[where p = ex_proc and e = ex_env_cancel
        and w = ex_world and c = ex_cfg and d = Second]
      failure_only_on_cancel_or_panic[where p = "ex_proc\<lparr>cfg := ex_cfg\<lparr>MaxMsgSize := - 1\<rparr>\<rparr>"
        and e = ex_env and w = ex_world and c = ex_cfg and d = Second]
      nc c ev
    by simp
qed

lemma sendWithRetry_error_kind:
  assumes "sendWithRetry wr e msg w = (Some err, wr', w')"
  shows "(\<exists>x. err = ErrReconnectionFailed x) \<or> (\<exists>x. err = ErrWriteAfterReconnect x)"
proof -
  obtain r1 w1 where a: "Write wr e msg w = (r1, w1)" by force
  obtain r2 wr2 w2 where b: "Reconnect wr e w1 = (r2, wr2, w2)" by (metis prod_cases3)
  obtain r3 w3 where c: "Write wr2 e msg w2 = (r3, w3)" by force
  from assms a b c show ?thesis
    by (cases r1; cases r2; cases r3) (auto simp: sendWithRetry_def)
qed

lemma forwardLoop_error_kind:
  "forwardLoop c f e events n wr w = (Returned (m, Some err), wr', w') \<Longrightarrow>
   (\<exists>x. err = ErrReconnectionFailed x) \<or> (\<exists>x. err = ErrWriteAfterReconnect x)"
proof (induction events arbitrary: n wr w)
  case Nil
  then show ?case by simp
next
  case (Cons fm rest)
  show ?case
  proof (cases "syslogLine c f e fm (stamps w)")
    case Panicked
    with Cons.prems show ?thesis by simp
  next
    case (Returned msg)
    obtain r1 wr1 w1 where s: "sendWithRetry wr e msg (w\<lparr>stamps := Suc (stamps w)\<rparr>) = (r1, wr1, w1)"
      by (metis prod_cases3)
    show ?thesis
    proof (cases r1)
      case (Some x)
      with Cons.prems Returned s have "x = err" by simp
      with sendWithRetry_error_kind[of wr e msg _ x wr1 w1] s Some show ?thesis by simp
    next
      case None
      with Cons.prems Returned s
      have "forwardLoop c f e rest (n + 1) wr1 w1 = (Returned (m, Some err), wr', w')"
        by simp
      from Cons.IH[OF this] show ?thesis .
    qed
  qed
qed

lemma forwardEvents_error_kind:
  assumes "forwardEvents p e events w = (Returned (m, Some err), p', w')"
  shows "(\<exists>x. err = ErrReconnectionFailed x) \<or> (\<exists>x. err = ErrWriteAfterReconnect x)"
proof -
  obtain wr' where "forwardLoop (cfg p) (cefFormatter p) e events 0 (syslogWriter p) w
      = (Returned (m, Some err), wr', w')"
    using assms by (auto simp: forwardEvents_def split: prod.splits)
  then show ?thesis by (rule forwardLoop_error_kind)
qed

lemma ProcessWithRecovery_completes:
  assumes "\<forall>k. \<not> ctx_done e k" and "0 \<le> MaxMsgSize (cfg p)"
  shows "fst (ProcessWithRecovery p e w) = True"
proof -
  obtain out p' w' where run: "ProcessEvents p e w = (out, p', w')"
    by (metis prod_cases3)
  note f = ProcessEvents_facts[OF run]
  show ?thesis
  proof (cases out)
    case Panic
    with f(3) assms(2) show ?thesis by simp
  next
    case (Failed x)
    with f(2)[of x] assms(1) show ?thesis by simp
  next
    case (Completed l)
    with ProcessWithRecovery_result[OF run] show ?thesis by simp
  qed
qed

text \<open>
  C2, as the code has it. When \<open>forwardEvents\<close> returns an error, the error is that of
  a refused or failed reconnection or of the write retried after a reconnection; \<open>n\<close>
  records of the batch were delivered, a further one was rendered, and the records after
  it were neither rendered nor sent. The failure is not a cycle error: the loop body of
  \<open>ProcessEvents\<close> in which it happens neither returns it nor panics,
  \<open>ProcessEvents\<close> returns no error but the cancellation, and a cycle that is neither
  cancelled nor stopped by a panic reports success to the scheduler.
\<close>

theorem forwarding_failure_not_propagated:
  "(forwardEvents p e events w = (Returned (n, Some err), p', w') \<longrightarrow>
      ((\<exists>x. err = ErrReconnectionFailed x) \<or> (\<exists>x. err = ErrWriteAfterReconnect x)) \<and>
      0 \<le> n \<and> n < int (length events) \<and>
      length (sent w') = length (sent w) + nat n \<and>
      stamps w' = stamps w + nat n + 1) \<and>
   (\<not> ctx_done e (ctx_polls w) \<and>
    FetchWithRetry e (currentMarker l) (RetryAttempts (cfg p))
      (w\<lparr>ctx_polls := Suc (ctx_polls w)\<rparr>) = (Inr page, wa) \<and>
    Events page \<noteq> [] \<and>
    forwardEvents p e (Events page) wa = (Returned (n, Some err), pb, wb) \<longrightarrow>
      (\<forall>x. fst (iteration e l p w) \<noteq> ReturnErr x) \<and> fst (iteration e l p w) \<noteq> Panics) \<and>
   (ProcessEvents p e w = (Failed err', pc, wc) \<longrightarrow> err' = ErrContextCancelled) \<and>
   ((\<forall>k. \<not> ctx_done e k) \<and> 0 \<le> MaxMsgSize (cfg p) \<longrightarrow>
      fst (ProcessWithRecovery p e w) = True)"
proof -
  have c1: "((\<exists>x. err = ErrReconnectionFailed x) \<or> (\<exists>x. err = ErrWriteAfterReconnect x)) \<and>
      0 \<le> n \<and> n < int (length events) \<and>
      length (sent w') = length (sent w) + nat n \<and>
      stamps w' = stamps w + nat n + 1"
    if a: "forwardEvents p e events w = (Returned (n, Some err), p', w')"
    using forwardEvents_error_kind[OF a] forwardEvents_frame(10)[OF a, of n err]
    by simp
  have c2: "(\<forall>x. fst (iteration e l p w) \<noteq> ReturnErr x) \<and> fst (iteration e l p w) \<noteq> Panics"
    if "\<not> ctx_done e (ctx_polls w) \<and>
      FetchWithRetry e (currentMarker l) (RetryAttempts (cfg p))
        (w\<lparr>ctx_polls := Suc (ctx_polls w)\<rparr>) = (Inr page, wa) \<and>
      Events page \<noteq> [] \<and>
      forwardEvents p e (Events page) wa = (Returned (n, Some err), pb, wb)"
    using that by (simp add: iteration_def Let_def)
  have c3: "err' = ErrContextCancelled" if "ProcessEvents p e w = (Failed err', pc, wc)"
    using ProcessEvents_facts(2)[OF that, of err'] by simp
  have c4: "fst (ProcessWithRecovery p e w) = True"
    if "(\<forall>k. \<not> ctx_done e k) \<and> 0 \<le> MaxMsgSize (cfg p)"
    using that by (simp add: ProcessWithRecovery_completes)
  from c1 c2 c3 c4 show ?thesis by blast
qed

theorem forwarding_failure_not_propagated_witness:
  "length (sent (snd (snd (forwardEvents ex_proc ex_env_drop (Events ex_page) ex_world)))) = 1 \<and>
   stamps (snd (snd (forwardEvents ex_proc ex_env_drop (Events ex_page) ex_world))) = 2 \<and>
   fst (iteration ex_env_drop
          \<lparr>totalEventsProcessed = 0, paginationCount = 0, currentMarker = [],
             markerUpdates = 0, numErrors = 0\<rparr> ex_proc ex_world) \<noteq> Panics \<and>
   fst (iteration ex_env_drop
          \<lparr>totalEventsProcessed = 0, paginationCount = 0, currentMarker = [],
             markerUpdates = 0, numErrors = 0\<rparr> ex_proc ex_world)
     \<noteq> ReturnErr (ErrReconnectionFailed ErrDial) \<and>
   fst (ProcessEvents ex_proc ex_env_cancel ex_world) = Failed ErrContextCancelled \<and>
   fst (ProcessWithRecovery ex_proc ex_env_drop ex_world) = True"
proof -
  let ?fw = "forwardEvents ex_proc ex_env_drop (Events ex_page) ex_world"
  let ?l0 = "\<lparr>totalEventsProcessed = 0, paginationCount = 0, currentMarker = [],
               markerUpdates = 0, numErrors = 0\<rparr>"
  let ?wa = "ex_world\<lparr>ctx_polls := 1, fetch_calls := 1, http_calls := 1, pages := [ex_page]\<rparr>"
  let ?fb = "forwardEvents ex_proc ex_env_drop (Events ex_page) ?wa"
  let ?pe = "ProcessEvents ex_proc ex_env_cancel ex_world"
  have a: "fst ?fw = Returned (1, Some (ErrReconnectionFailed ErrDial))"
    by code_simp
  then have a': "?fw = (Returned (1, Some (ErrReconnectionFailed ErrDial)), fst (snd ?fw), snd (snd ?fw))"
    by (simp add: prod_eq_iff)
  have b: "\<not> ctx_done ex_env_drop (ctx_polls ex_world)"
    by (simp add: ex_env_drop_def ex_env_def)
  have c: "FetchWithRetry ex_env_drop (currentMarker ?l0) (RetryAttempts (cfg ex_proc))
             (ex_world\<lparr>ctx_polls := Suc (ctx_polls ex_world)\<rparr>) = (Inr ex_page, ?wa)"
    by code_simp
  have d: "Events ex_page \<noteq> []"
    by (simp add: ex_page_def)
  have e: "fst ?fb = Returned (1, Some (ErrReconnectionFailed ErrDial))"
    by code_simp
  then have e': "?fb = (Returned (1, Some (ErrReconnectionFailed ErrDial)), fst (snd ?fb), snd (snd ?fb))"
    by (simp add: prod_eq_iff)
  have f: "fst ?pe = Failed ErrContextCancelled"
    by code_simp
  then have f': "?pe = (Failed ErrContextCancelled, fst (snd ?pe), snd (snd ?pe))"
    by (simp add: prod_eq_iff)
  have s0: "sent ex_world = []" "stamps ex_world = 0"
    by (simp_all add: ex_world_def)
  have nc: "\<forall>k. \<not> ctx_done ex_env_drop k" "0 \<le> MaxMsgSize (cfg ex_proc)"
    by (simp_all add: ex_env_drop_def ex_env_def ex_proc_def ex_cfg_def)
  note inst = forwarding_failure_not_propagated[where p = ex_proc and e = ex_env_drop
      and w = ex_world and events = "Events ex_page" and n = 1
      and err = "ErrReconnectionFailed ErrDial" and p' = "fst (snd ?fw)" and w' = "snd (snd ?fw)"
      and l = ?l0 and page = ex_page and wa = ?wa and pb = "fst (snd ?fb)" and wb = "snd (snd ?fb)"]
  from inst a' s0 have g1: "length (sent (snd (snd ?fw))) = 1" "stamps (snd (snd ?fw)) = 2"
    by simp_all
  from inst b c d e' have g2: "fst (iteration ex_env_drop ?l0 ex_proc ex_world) \<noteq> Panics"
      "fst (iteration ex_env_drop ?l0 ex_proc ex_world) \<noteq> ReturnErr (ErrReconnectionFailed ErrDial)"
    by simp_all
  from inst nc have g4: "fst (ProcessWithRecovery ex_proc ex_env_drop ex_world) = True"
    by simp
  from forwarding_failure_not_propagated[where p = ex_proc and e = ex_env_cancel
      and w = ex_world and err' = ErrContextCancelled and pc = "fst (snd ?pe)"
      and wc = "snd (snd ?pe)"] f
  have g3: "fst ?pe = Failed ErrContextCancelled" by simp
  from g1 g2 g3 g4 show ?thesis by simp
qed

text \<open>
  The claim as the specification words it fails: with a collector that is down, the first
  record of the first page cannot be forwarded, yet the cycle fetches a second page and
  reports success to the scheduler.
\<close>

theorem forwarding_failure_counterexample:
  "fst (forwardEvents ex_proc ex_env_down (Events ex_page) ex_world)
     = Returned (0, Some (ErrReconnectionFailed ErrDial)) \<and>
   fst (ProcessEvents ex_proc ex_env_down ex_world)
     = Completed \<lparr>totalEventsProcessed = 0, paginationCount = 2, currentMarker = [],
                   markerUpdates = 0, numErrors = 2\<rparr> \<and>
   fetch_calls (snd (snd (ProcessEvents ex_proc ex_env_down ex_world))) = 2 \<and>
   fst (ProcessWithRecovery ex_proc ex_env_down ex_world) = True"
  by code_simp

section \<open>Cycle orchestrator: the events counted\<close>

text \<open>
  C3. A page of two events whose first record is delivered and whose second is not
  (the write fails and the reconnection fails): \<open>forwardEvents\<close> returns the count 1
  with the error, \<open>ProcessEvents\<close> drops that count at \<open>continue\<close>, and the cycle
  ends with \<open>events_processed\<close> 0 and \<open>TotalEventsForwarded\<close> 0 although one line
  reached the collector.
\<close>

theorem partial_batch_not_counted:
  "fst (forwardEvents ex_proc ex_env_drop (Events ex_page) ex_world)
     = Returned (1, Some (ErrReconnectionFailed ErrDial)) \<and>
   fst (ProcessEvents ex_proc ex_env_drop ex_world)
     = Completed \<lparr>totalEventsProcessed = 0, paginationCount = 2, currentMarker = [],
                   markerUpdates = 0, numErrors = 2\<rparr> \<and>
   TotalEventsForwarded (stats (fst (snd (ProcessEvents ex_proc ex_env_drop ex_world)))) = 0 \<and>
   length (sent (snd (snd (ProcessEvents ex_proc ex_env_drop ex_world)))) = 1"
  by code_simp

section \<open>Cycle orchestrator: cancellation\<close>

text \<open>
  C7, as the code has it. When cancellation is signalled at the head of a loop
  iteration, the cycle stops there with the cancellation error and leaves the processor
  as it is, so the events counted by the pages before are kept, and each of them was
  delivered. \<open>ProcessWithRecovery\<close> treats this error like any other: it adds one to
  the failed-request counter and returns false. For a cycle run on a tick the scheduler
  then takes its backoff branch, as for any failed cycle; for the initial cycle the
  result is only logged, and the schedule is the one that follows a success.
\<close>

theorem cancellation_counts_as_failure:
  "(paginationCount l < MaxPagination (cfg p) \<and> ctx_done e (ctx_polls w) \<longrightarrow>
      paginate e l p w = (Failed ErrContextCancelled, p, w\<lparr>ctx_polls := Suc (ctx_polls w)\<rparr>)) \<and>
   (ProcessEvents p e w = (Failed err, p', w') \<longrightarrow>
      err = ErrContextCancelled \<and>
      ProcessWithRecovery p e w =
        (False, p'\<lparr>stats := (stats p')\<lparr>FailedAPIRequests := FailedAPIRequests (stats p) + 1\<rparr>\<rparr>, w') \<and>
      TotalEventsForwarded (stats p) \<le> TotalEventsForwarded (stats p') \<and>
      TotalEventsForwarded (stats p') - TotalEventsForwarded (stats p)
        \<le> int (length (sent w')) - int (length (sent w)) \<and>
      onTick c (fst (ProcessWithRecovery p e w)) d = onTick c False d \<and>
      serviceLoop c (TickerC (fst (ProcessWithRecovery p e w)) # events) d
        = serviceLoop c (TickerC False # events) d \<and>
      main c (fst (ProcessWithRecovery p e w)) events = main c True events)"
proof (rule conjI; rule impI)
  assume "paginationCount l < MaxPagination (cfg p) \<and> ctx_done e (ctx_polls w)"
  then show "paginate e l p w = (Failed ErrContextCancelled, p, w\<lparr>ctx_polls := Suc (ctx_polls w)\<rparr>)"
    by (simp add: paginate.simps[of e l p w] iteration_def Let_def)
next
  assume run: "ProcessEvents p e w = (Failed err, p', w')"
  note f = ProcessEvents_facts[OF run]
  from f(2)[of err] have e1: "err = ErrContextCancelled" by simp
  have e2: "ProcessWithRecovery p e w =
        (False, p'\<lparr>stats := (stats p')\<lparr>FailedAPIRequests := FailedAPIRequests (stats p) + 1\<rparr>\<rparr>, w')"
    using ProcessWithRecovery_result[OF run] ProcessEvents_failed_counter[OF run]
    by (simp add: IncrementFailedAPIRequests_def)
  then have r: "fst (ProcessWithRecovery p e w) = False"
    by simp
  have e3: "onTick c (fst (ProcessWithRecovery p e w)) d = onTick c False d"
    using r by simp
  have e4: "serviceLoop c (TickerC (fst (ProcessWithRecovery p e w)) # events) d
        = serviceLoop c (TickerC False # events) d"
    using r by simp
  have e5: "main c (fst (ProcessWithRecovery p e w)) events = main c True events"
    by (simp add: main_def)
  from e1 e2 f(6,7) e3 e4 e5
  show "err = ErrContextCancelled \<and>
      ProcessWithRecovery p e w =
        (False, p'\<lparr>stats := (stats p')\<lparr>FailedAPIRequests := FailedAPIRequests (stats p) + 1\<rparr>\<rparr>, w') \<and>
      TotalEventsForwarded (stats p) \<le> TotalEventsForwarded (stats p') \<and>
      TotalEventsForwarded (stats p') - TotalEventsForwarded (stats p)
        \<le> int (length (sent w')) - int (length (sent w)) \<and>
      onTick c (fst (ProcessWithRecovery p e w)) d = onTick c False d \<and>
      serviceLoop c (TickerC (fst (ProcessWithRecovery p e w)) # events) d
        = serviceLoop c (TickerC False # events) d \<and>
      main c (fst (ProcessWithRecovery p e w)) events = main c True events"
    by blast
qed

theorem cancellation_counts_as_failure_witness:
  "paginate ex_env_cancel
     \<lparr>totalEventsProcessed = 2, paginationCount = 1, currentMarker = ''m'',
        markerUpdates = 1, numErrors = 0\<rparr> ex_proc (ex_world\<lparr>ctx_polls := 1\<rparr>)
     = (Failed ErrContextCancelled, ex_proc, ex_world\<lparr>ctx_polls := 2\<rparr>) \<and>
   fst (ProcessWithRecovery ex_proc ex_env_cancel ex_world) = False \<and>
   FailedAPIRequests (stats (fst (snd (ProcessWithRecovery ex_proc ex_env_cancel ex_world)))) = 1 \<and>
   TotalEventsForwarded (stats (fst (snd (ProcessEvents ex_proc ex_env_cancel ex_world)))) = 2 \<and>
   length (sent (snd (snd (ProcessEvents ex_proc ex_env_cancel ex_world)))) = 2 \<and>
   onTick ex_cfg (fst (ProcessWithRecovery ex_proc ex_env_cancel ex_world)) Second
     = (Second, 2 * Second) \<and>
   serviceLoop ex_cfg [TickerC (fst (ProcessWithRecovery ex_proc ex_env_cancel ex_world))] Second
     = Returned ([Second], 2 * Second) \<and>
   main ex_cfg (fst (ProcessWithRecovery ex_proc ex_env_cancel ex_world)) [TickerC True]
     = Returned ([60 * Second, 60 * Second], Second)"
proof -
  let ?l = "\<lparr>totalEventsProcessed = 2, paginationCount = 1, currentMarker = ''m'',
              markerUpdates = 1, numErrors = 0\<rparr>"
  let ?pe = "ProcessEvents ex_proc ex_env_cancel ex_world"
  have h1: "paginationCount ?l < MaxPagination (cfg ex_proc) \<and>
            ctx_done ex_env_cancel (ctx_polls (ex_world\<lparr>ctx_polls := 1\<rparr>))"
    by (simp add: ex_proc_def ex_cfg_def ex_env_cancel_def ex_env_def)
  have f: "fst ?pe = Failed ErrContextCancelled"
    by code_simp
  then have f': "?pe = (Failed ErrContextCancelled, fst (snd ?pe), snd (snd ?pe))"
    by (simp add: prod_eq_iff)
  have ev: "TotalEventsForwarded (stats (fst (snd ?pe))) = 2" "length (sent (snd (snd ?pe))) = 2"
      "onTick ex_cfg False Second = (Second, 2 * Second)"
      "serviceLoop ex_cfg [TickerC False] Second = Returned ([Second], 2 * Second)"
      "main ex_cfg True [TickerC True] = Returned ([60 * Second, 60 * Second], Second)"
    by code_simp+
  have s0: "FailedAPIRequests (stats ex_proc) = 0"
    by (simp add: ex_proc_def NewStats_def)
  from cancellation_counts_as_failure[where l = ?l and p = ex_proc and e = ex_env_cancel
      and w = "ex_world\<lparr>ctx_polls := 1\<rparr>"] h1
  have g1: "paginate ex_env_cancel ?l ex_proc (ex_world\<lparr>ctx_polls := 1\<rparr>)
     = (Failed ErrContextCancelled, ex_proc, ex_world\<lparr>ctx_polls := 2\<rparr>)"
    by simp
  note inst = cancellation_counts_as_failure[where p = ex_proc and e = ex_env_cancel
      and w = ex_world and err = ErrContextCancelled and p' = "fst (snd ?pe)"
      and w' = "snd (snd ?pe)" and c = ex_cfg and d = Second]
  from inst[where events = "[]"] f' s0 ev(3,4)
  have g2: "fst (ProcessWithRecovery ex_proc ex_env_cancel ex_world) = False"
      "FailedAPIRequests (stats (fst (snd (ProcessWithRecovery ex_proc ex_env_cancel ex_world)))) = 1"
      "onTick ex_cfg (fst (ProcessWithRecovery ex_proc ex_env_cancel ex_world)) Second
         = (Second, 2 * Second)"
      "serviceLoop ex_cfg [TickerC (fst (ProcessWithRecovery ex_proc ex_env_cancel ex_world))] Second
         = Returned ([Second], 2 * Second)"
    by simp_all
  from inst[where events = "[TickerC True]"] f'
  have "main ex_cfg (fst (ProcessWithRecovery ex_proc ex_env_cancel ex_world)) [TickerC True]
     = main ex_cfg True [TickerC True]"
    by blast
  with ev(5)
  have g3: "main ex_cfg (fst (ProcessWithRecovery ex_proc ex_env_cancel ex_world)) [TickerC True]
     = Returned ([60 * Second, 60 * Second], Second)"
    by (simp only:)
  from g1 g2 g3 ev(1,2) show ?thesis by simp
qed

text \<open>
  The claim as the specification words it fails: a cycle cancelled after its first page
  is reported as failed and the failed-request counter goes from 0 to 1; when the cycle
  was run on a tick, the scheduler resets its ticker to the backoff delay and doubles
  the delay.
\<close>

theorem cancellation_counterexample:
  "ctx_done ex_env_cancel 1 \<and>
   fst (ProcessEvents ex_proc ex_env_cancel ex_world) = Failed ErrContextCancelled \<and>
   fst (ProcessWithRecovery ex_proc ex_env_cancel ex_world) = False \<and>
   FailedAPIRequests (stats ex_proc) = 0 \<and>
   FailedAPIRequests (stats (fst (snd (ProcessWithRecovery ex_proc ex_env_cancel ex_world)))) = 1 \<and>
   onTick ex_cfg (fst (ProcessWithRecovery ex_proc ex_env_cancel ex_world)) Second
     = (Second, 2 * Second)"
  by code_simp

end
